theory Spec2Isabelle
  imports Complex_Main "HOL-Library.Multiset"
begin

section \<open>Student Finance Manager: the ledger of \<^verbatim>\<open>script.js\<close>\<close>

text \<open>
  The program keeps one global object \<^verbatim>\<open>state = {allowance, goal, expenses}\<close>,
  stores it as JSON text under the key \<^verbatim>\<open>hostelFinanceData\<close> of the browser's
  \<^verbatim>\<open>localStorage\<close>, and derives a dashboard and a filtered, sorted list of
  expenses from it and from the clock.

  Conventions of the embedding.
  \<^item> A JavaScript number is an exact rational (\<open>rat\<close>); the rounding of IEEE doubles is
    not modelled. \<^verbatim>\<open>NaN\<close> is written out where the code can meet it (the result of
    \<^verbatim>\<open>parseFloat\<close>, the time value of an invalid \<^verbatim>\<open>Date\<close>).
  \<^item> A JavaScript string is a \<open>string\<close>; a code unit above 127 stands as the bytes of its
    UTF-8 form.
  \<^item> A \<^verbatim>\<open>Date\<close> is its time value: milliseconds since 1970-01-01T00:00Z as an
    \<open>int\<close>, or \<open>None\<close> for an invalid date. The clock is an input: the reading of
    \<^verbatim>\<open>new Date()\<close> and the offset of local time from UTC, taken as constant (no
    daylight-saving change between the dates compared). Time values are not clipped to
    the range of \<^verbatim>\<open>Date\<close>.
  \<^item> The DOM is left out: a handler takes what it reads from the form as arguments and a
    render function returns what it writes to the page.
\<close>

subsection \<open>JSON values and \<^verbatim>\<open>JSON.stringify\<close>\<close>

text \<open>
  \<^verbatim>\<open>JSON.stringify\<close> and \<^verbatim>\<open>JSON.parse\<close> belong to the platform. They are
  modelled on strings, following the JSON grammar. A number is printed as its decimal
  expansion (the platform switches to exponent notation for very large and very small
  numbers, which \<^verbatim>\<open>JSON.parse\<close> reads back as the same value).
\<close>

datatype json =
    JNull
  | JBool bool
  | JNumber rat
  | JString string
  | JArray "json list"
  | JObject "(string \<times> json) list"

definition digit_char :: "int \<Rightarrow> char" where
  "digit_char n = char_of (n + (if n < 10 then 48 else 87))"

function show_nat :: "int \<Rightarrow> string" where
  "show_nat n = (if n < 10 then [digit_char n] else show_nat (n div 10) @ [digit_char (n mod 10)])"
  by pat_completeness auto
termination
  by (relation "measure nat") auto

declare show_nat.simps [simp del]

fun show_frac :: "nat \<Rightarrow> int \<Rightarrow> int \<Rightarrow> string" where
  "show_frac 0 r q = []"
| "show_frac (Suc k) r q =
     (if r = 0 then [] else digit_char (r * 10 div q) # show_frac k (r * 10 mod q) q)"

definition show_number :: "rat \<Rightarrow> string" where
  "show_number x =
     (let (p, q) = quotient_of x; a = \<bar>p\<bar>
      in (if p < 0 then ''-'' else '''') @ show_nat (a div q) @
         (if a mod q = 0 then '''' else ''.'' @ show_frac (nat q) (a mod q) q))"

definition quote_char :: "char \<Rightarrow> string" where
  "quote_char c =
     (if c = CHR 0x22 then [CHR 0x5C, CHR 0x22]
      else if c = CHR 0x5C then [CHR 0x5C, CHR 0x5C]
      else if c = CHR 0x08 then [CHR 0x5C, CHR ''b'']
      else if c = CHR 0x0C then [CHR 0x5C, CHR ''f'']
      else if c = CHR 0x0A then [CHR 0x5C, CHR ''n'']
      else if c = CHR 0x0D then [CHR 0x5C, CHR ''r'']
      else if c = CHR 0x09 then [CHR 0x5C, CHR ''t'']
      else if (of_char c :: int) < 32
        then [CHR 0x5C, CHR ''u'', CHR ''0'', CHR ''0'',
              digit_char (of_char c div 16), digit_char (of_char c mod 16)]
      else [c])"

definition quote :: "string \<Rightarrow> string" where
  "quote s = [CHR 0x22] @ concat (map quote_char s) @ [CHR 0x22]"

fun join :: "'a list \<Rightarrow> 'a list list \<Rightarrow> 'a list" where
  "join sep [] = []"
| "join sep [x] = x"
| "join sep (x # y # ys) = x @ sep @ join sep (y # ys)"

fun JSON_stringify :: "json \<Rightarrow> string" where
  "JSON_stringify JNull = ''null''"
| "JSON_stringify (JBool b) = (if b then ''true'' else ''false'')"
| "JSON_stringify (JNumber x) = show_number x"
| "JSON_stringify (JString s) = quote s"
| "JSON_stringify (JArray vs) = ''['' @ join '','' (map JSON_stringify vs) @ '']''"
| "JSON_stringify (JObject ms) =
     ''{'' @ join '','' (map (\<lambda>(k, v). quote k @ '':'' @ JSON_stringify v) ms) @ ''}''"

subsection \<open>\<^verbatim>\<open>JSON.parse\<close>\<close>

text \<open>
  The text is cut into tokens by a scanner that reads one character at a time, and the
  tokens drive a stack machine: a frame per open array or object. \<open>None\<close> is the
  \<^verbatim>\<open>SyntaxError\<close> of the platform. A maximal run of letters, digits, signs and dots
  is one word, which must be \<^verbatim>\<open>true\<close>, \<^verbatim>\<open>false\<close>, \<^verbatim>\<open>null\<close> or
  a number of the JSON grammar.
\<close>

datatype token =
    LBrace | RBrace | LBracket | RBracket | Colon | Comma
  | TString string | TNumber rat | TTrue | TFalse | TNull

definition is_digit :: "char \<Rightarrow> bool" where
  "is_digit c = (48 \<le> (of_char c :: int) \<and> (of_char c :: int) \<le> 57)"

definition digit_val :: "char \<Rightarrow> int" where
  "digit_val c = of_char c - 48"

definition is_hex :: "char \<Rightarrow> bool" where
  "is_hex c = (is_digit c \<or> (97 \<le> (of_char c :: int) \<and> (of_char c :: int) \<le> 102)
                 \<or> (65 \<le> (of_char c :: int) \<and> (of_char c :: int) \<le> 70))"

definition hex_val :: "char \<Rightarrow> int" where
  "hex_val c = (if is_digit c then of_char c - 48
                else if 97 \<le> (of_char c :: int) then of_char c - 87 else of_char c - 55)"

definition is_letter :: "char \<Rightarrow> bool" where
  "is_letter c = ((97 \<le> (of_char c :: int) \<and> (of_char c :: int) \<le> 122)
                 \<or> (65 \<le> (of_char c :: int) \<and> (of_char c :: int) \<le> 90))"

definition is_word_char :: "char \<Rightarrow> bool" where
  "is_word_char c = (is_digit c \<or> is_letter c \<or> c = CHR ''+'' \<or> c = CHR ''-'' \<or> c = CHR ''.'')"

definition is_ws :: "char \<Rightarrow> bool" where
  "is_ws c = (c = CHR '' '' \<or> c = CHR 0x09 \<or> c = CHR 0x0A \<or> c = CHR 0x0D)"

definition digits_val :: "string \<Rightarrow> int" where
  "digits_val ds = foldl (\<lambda>a c. 10 * a + digit_val c) 0 ds"

definition hex_digits_val :: "string \<Rightarrow> int" where
  "hex_digits_val ds = foldl (\<lambda>a c. 16 * a + hex_val c) 0 ds"

definition pow10 :: "int \<Rightarrow> rat" where
  "pow10 e = (if 0 \<le> e then 10 ^ nat e else 1 / 10 ^ nat (- e))"

definition split_sign :: "string \<Rightarrow> bool \<times> string" where
  "split_sign w =
     (case w of [] \<Rightarrow> (False, w)
      | c # cs \<Rightarrow> if c = CHR ''-'' then (True, cs) else (False, w))"

definition parse_fraction :: "string \<Rightarrow> string \<times> string \<times> bool" where
  "parse_fraction r =
     (case r of [] \<Rightarrow> ([], [], True)
      | c # cs \<Rightarrow> if c = CHR ''.''
          then (takeWhile is_digit cs, dropWhile is_digit cs, takeWhile is_digit cs \<noteq> [])
          else ([], r, True))"

definition parse_exponent :: "string \<Rightarrow> int \<times> string \<times> bool" where
  "parse_exponent r =
     (case r of [] \<Rightarrow> (0, [], True)
      | c # cs \<Rightarrow> if c = CHR ''e'' \<or> c = CHR ''E''
          then (let (sgn, es) = (case cs of [] \<Rightarrow> (1, cs)
                                 | s # t \<Rightarrow> if s = CHR ''+'' then (1, t)
                                           else if s = CHR ''-'' then (- 1, t) else (1, cs))
                in (sgn * digits_val (takeWhile is_digit es), dropWhile is_digit es,
                    takeWhile is_digit es \<noteq> []))
          else (0, r, True))"

definition parse_number :: "string \<Rightarrow> rat option" where
  "parse_number w =
     (let (neg, w1) = split_sign w;
          ds = takeWhile is_digit w1;
          (fs, r2, frac_ok) = parse_fraction (dropWhile is_digit w1);
          (e, r3, exp_ok) = parse_exponent r2
      in if ds \<noteq> [] \<and> (length ds = 1 \<or> hd ds \<noteq> CHR ''0'') \<and> frac_ok \<and> exp_ok \<and> r3 = []
         then Some ((if neg then - 1 else 1)
                    * (of_int (digits_val ds) + of_int (digits_val fs) / 10 ^ length fs) * pow10 e)
         else None)"

definition word_token :: "string \<Rightarrow> token option" where
  "word_token w =
     (if w = ''true'' then Some TTrue else if w = ''false'' then Some TFalse
      else if w = ''null'' then Some TNull else map_option TNumber (parse_number w))"

definition encode_unit :: "int \<Rightarrow> string" where
  "encode_unit n =
     (if n < 128 then [char_of n]
      else if n < 2048 then [char_of (192 + n div 64), char_of (128 + n mod 64)]
      else [char_of (224 + n div 4096), char_of (128 + n div 64 mod 64), char_of (128 + n mod 64)])"

definition unescape :: "char \<Rightarrow> char option" where
  "unescape c =
     (if c = CHR 0x22 \<or> c = CHR 0x5C \<or> c = CHR ''/'' then Some c
      else if c = CHR ''b'' then Some (CHR 0x08) else if c = CHR ''f'' then Some (CHR 0x0C)
      else if c = CHR ''n'' then Some (CHR 0x0A) else if c = CHR ''r'' then Some (CHR 0x0D)
      else if c = CHR ''t'' then Some (CHR 0x09) else None)"

datatype lex_mode =
    Idle | InString string | InEscape string | InUnicode string string | InWord string

definition lex_idle :: "token list \<Rightarrow> char \<Rightarrow> (token list \<times> lex_mode) option" where
  "lex_idle ts c =
     (if is_ws c then Some (ts, Idle)
      else if c = CHR ''{'' then Some (LBrace # ts, Idle)
      else if c = CHR ''}'' then Some (RBrace # ts, Idle)
      else if c = CHR ''['' then Some (LBracket # ts, Idle)
      else if c = CHR '']'' then Some (RBracket # ts, Idle)
      else if c = CHR '':'' then Some (Colon # ts, Idle)
      else if c = CHR '','' then Some (Comma # ts, Idle)
      else if c = CHR 0x22 then Some (ts, InString [])
      else if is_word_char c then Some (ts, InWord [c])
      else None)"

fun lex_char :: "token list \<Rightarrow> lex_mode \<Rightarrow> char \<Rightarrow> (token list \<times> lex_mode) option" where
  "lex_char ts Idle c = lex_idle ts c"
| "lex_char ts (InString acc) c =
     (if c = CHR 0x22 then Some (TString (rev acc) # ts, Idle)
      else if c = CHR 0x5C then Some (ts, InEscape acc)
      else if (of_char c :: int) < 32 then None
      else Some (ts, InString (c # acc)))"
| "lex_char ts (InEscape acc) c =
     (case unescape c of
        Some d \<Rightarrow> Some (ts, InString (d # acc))
      | None \<Rightarrow> if c = CHR ''u'' then Some (ts, InUnicode acc []) else None)"
| "lex_char ts (InUnicode acc hs) c =
     (if \<not> is_hex c then None
      else if length hs = 3
        then Some (ts, InString (rev (encode_unit (hex_digits_val (hs @ [c]))) @ acc))
      else Some (ts, InUnicode acc (hs @ [c])))"
| "lex_char ts (InWord w) c =
     (if is_word_char c then Some (ts, InWord (c # w))
      else (case word_token (rev w) of None \<Rightarrow> None | Some t \<Rightarrow> lex_idle (t # ts) c))"

fun lex_from :: "token list \<Rightarrow> lex_mode \<Rightarrow> string \<Rightarrow> token list option" where
  "lex_from ts Idle [] = Some (rev ts)"
| "lex_from ts (InWord w) [] = map_option (\<lambda>t. rev (t # ts)) (word_token (rev w))"
| "lex_from ts m [] = None"
| "lex_from ts m (c # cs) =
     (case lex_char ts m c of None \<Rightarrow> None | Some (ts', m') \<Rightarrow> lex_from ts' m' cs)"

datatype frame = FArray "json list" | FObject "(string \<times> json) list" string

datatype phase = Value | ValueOrEnd | KeyOrEnd | Key | AfterKey | AfterValue | Done json

fun deliver :: "frame list \<Rightarrow> json \<Rightarrow> frame list \<times> phase" where
  "deliver [] v = ([], Done v)"
| "deliver (FArray vs # fs) v = (FArray (v # vs) # fs, AfterValue)"
| "deliver (FObject ms k # fs) v = (FObject ((k, v) # ms) k # fs, AfterValue)"

fun start_value :: "frame list \<Rightarrow> token \<Rightarrow> (frame list \<times> phase) option" where
  "start_value fs (TString s) = Some (deliver fs (JString s))"
| "start_value fs (TNumber x) = Some (deliver fs (JNumber x))"
| "start_value fs TTrue = Some (deliver fs (JBool True))"
| "start_value fs TFalse = Some (deliver fs (JBool False))"
| "start_value fs TNull = Some (deliver fs JNull)"
| "start_value fs LBracket = Some (FArray [] # fs, ValueOrEnd)"
| "start_value fs LBrace = Some (FObject [] [] # fs, KeyOrEnd)"
| "start_value fs t = None"

fun close_array :: "frame list \<Rightarrow> (frame list \<times> phase) option" where
  "close_array (FArray vs # fs) = Some (deliver fs (JArray (rev vs)))"
| "close_array fs = None"

fun close_object :: "frame list \<Rightarrow> (frame list \<times> phase) option" where
  "close_object (FObject ms k # fs) = Some (deliver fs (JObject (rev ms)))"
| "close_object fs = None"

fun set_key :: "frame list \<Rightarrow> token \<Rightarrow> (frame list \<times> phase) option" where
  "set_key (FObject ms k # fs) (TString s) = Some (FObject ms s # fs, AfterKey)"
| "set_key fs t = None"

fun parse_token :: "frame list \<Rightarrow> phase \<Rightarrow> token \<Rightarrow> (frame list \<times> phase) option" where
  "parse_token fs Value t = start_value fs t"
| "parse_token fs ValueOrEnd t = (if t = RBracket then close_array fs else start_value fs t)"
| "parse_token fs KeyOrEnd t = (if t = RBrace then close_object fs else set_key fs t)"
| "parse_token fs Key t = set_key fs t"
| "parse_token fs AfterKey t = (if t = Colon then Some (fs, Value) else None)"
| "parse_token fs AfterValue t =
     (case fs of
        FArray vs # fs' \<Rightarrow>
          if t = Comma then Some (fs, Value) else if t = RBracket then close_array fs else None
      | FObject ms k # fs' \<Rightarrow>
          if t = Comma then Some (fs, Key) else if t = RBrace then close_object fs else None
      | [] \<Rightarrow> None)"
| "parse_token fs (Done v) t = None"

fun parse_from :: "frame list \<Rightarrow> phase \<Rightarrow> token list \<Rightarrow> json option" where
  "parse_from [] (Done v) [] = Some v"
| "parse_from fs p [] = None"
| "parse_from fs p (t # ts) =
     (case parse_token fs p t of None \<Rightarrow> None | Some (fs', p') \<Rightarrow> parse_from fs' p' ts)"

definition JSON_parse :: "string \<Rightarrow> json option" where
  "JSON_parse s = (case lex_from [] Idle s of None \<Rightarrow> None | Some ts \<Rightarrow> parse_from [] Value ts)"

subsection \<open>Calendar arithmetic of \<^verbatim>\<open>Date\<close>\<close>

text \<open>
  The day and year functions are those of the ECMAScript specification (Day,
  DaysInYear, DayFromYear, YearFromTime, MonthFromTime, DateFromTime, MakeDay), on day
  numbers. Months count from 0. YearFromTime is "the largest year whose first day is
  not after the day": \<open>year_up\<close> searches upwards from a year that is not too late.
\<close>

definition msPerDay :: int where
  "msPerDay = 86400000"

definition Day :: "int \<Rightarrow> int" where
  "Day t = t div msPerDay"

definition TimeWithinDay :: "int \<Rightarrow> int" where
  "TimeWithinDay t = t mod msPerDay"

definition DaysInYear :: "int \<Rightarrow> int" where
  "DaysInYear y = (if y mod 4 \<noteq> 0 then 365 else if y mod 100 \<noteq> 0 then 366
                   else if y mod 400 \<noteq> 0 then 365 else 366)"

definition DayFromYear :: "int \<Rightarrow> int" where
  "DayFromYear y = 365 * (y - 1970) + (y - 1969) div 4 - (y - 1901) div 100 + (y - 1601) div 400"

definition InLeapYear :: "int \<Rightarrow> int" where
  "InLeapYear y = (if DaysInYear y = 366 then 1 else 0)"

lemma succ_div:
  assumes n: "0 < n"
  shows "((a::int) + 1) div n = a div n + (if (a + 1) mod n = 0 then 1 else 0)"
proof (cases "(a + 1) mod n = 0")
  case True
  then have "a + 1 = n * ((a + 1) div n)" by auto
  then have "a = n * ((a + 1) div n - 1) + (n - 1)" by (simp add: algebra_simps)
  then have "a div n = (n * ((a + 1) div n - 1) + (n - 1)) div n" by simp
  also have "\<dots> = (a + 1) div n - 1" using n by (simp add: div_pos_pos_trivial)
  finally show ?thesis using True by simp
next
  case False
  have "0 \<le> (a + 1) mod n" using n by simp
  with False have r0: "0 \<le> (a + 1) mod n - 1" by simp
  have r1: "(a + 1) mod n - 1 < n" using pos_mod_bound [OF n, of "a + 1"] by simp
  have "a + 1 = n * ((a + 1) div n) + (a + 1) mod n" by simp
  then have "a = n * ((a + 1) div n) + ((a + 1) mod n - 1)" by linarith
  then have "a div n = (n * ((a + 1) div n) + ((a + 1) mod n - 1)) div n" by simp
  also have "\<dots> = (a + 1) div n" using n r0 r1 by (simp add: div_pos_pos_trivial)
  finally show ?thesis using False by simp
qed

lemma mod_shift: "((y::int) - n * k) mod n = y mod n"
proof -
  have "y - n * k = y + n * (- k)" by simp
  then show ?thesis by (simp only: mod_mult_self2)
qed

lemma DayFromYear_Suc: "DayFromYear (y + 1) = DayFromYear y + DaysInYear y"
proof -
  have a: "(y + 1 - 1969) div 4 = (y - 1969) div 4 + (if y mod 4 = 0 then 1 else 0)"
    using succ_div [of 4 "y - 1969"] mod_shift [of y 4 492] by (simp add: algebra_simps)
  have b: "(y + 1 - 1901) div 100 = (y - 1901) div 100 + (if y mod 100 = 0 then 1 else 0)"
    using succ_div [of 100 "y - 1901"] mod_shift [of y 100 19] by (simp add: algebra_simps)
  have c: "(y + 1 - 1601) div 400 = (y - 1601) div 400 + (if y mod 400 = 0 then 1 else 0)"
    using succ_div [of 400 "y - 1601"] mod_shift [of y 400 4] by (simp add: algebra_simps)
  have d: "y mod 400 = 0 \<Longrightarrow> y mod 100 = 0"
    using mod_mod_cancel [of 100 400 y] by simp
  have e: "y mod 100 = 0 \<Longrightarrow> y mod 4 = 0"
    using mod_mod_cancel [of 4 100 y] by simp
  show ?thesis
    apply (simp only: DayFromYear_def DaysInYear_def a b c)
    apply (cases "y mod 4 = 0"; cases "y mod 100 = 0"; cases "y mod 400 = 0")
    using d e apply simp_all
    done
qed


lemma DaysInYear_bounds: "365 \<le> DaysInYear y" "DaysInYear y \<le> 366"
  by (simp_all add: DaysInYear_def)

lemma DayFromYear_less_Suc: "DayFromYear y < DayFromYear (y + 1)"
  using DaysInYear_bounds(1) [of y] by (simp add: DayFromYear_Suc)

lemma DayFromYear_mono: "y \<le> y' \<Longrightarrow> DayFromYear y \<le> DayFromYear y'"
proof (induction y' rule: int_ge_induct)
  case base
  show ?case by simp
next
  case (step i)
  then show ?case using DayFromYear_less_Suc [of i] by simp
qed

lemma DayFromYear_strict_mono: "y < y' \<Longrightarrow> DayFromYear y < DayFromYear y'"
  using DayFromYear_mono [of "y + 1" y'] DayFromYear_less_Suc [of y] by simp

lemma DayFromYear_1970: "DayFromYear 1970 = 0"
  by (simp add: DayFromYear_def)

lemma DayFromYear_upper: "1970 \<le> y \<Longrightarrow> DayFromYear y \<le> 366 * (y - 1970)"
proof (induction y rule: int_ge_induct)
  case base
  show ?case by (simp add: DayFromYear_1970)
next
  case (step i)
  then show ?case using DaysInYear_bounds(2) [of i] by (simp add: DayFromYear_Suc)
qed

lemma DayFromYear_upper_neg: "y \<le> 1970 \<Longrightarrow> DayFromYear y \<le> 365 * (y - 1970)"
proof (induction y rule: int_le_induct)
  case base
  show ?case by (simp add: DayFromYear_1970)
next
  case (step i)
  have "DayFromYear i = DayFromYear (i - 1) + DaysInYear (i - 1)"
    using DayFromYear_Suc [of "i - 1"] by simp
  then show ?case using step DaysInYear_bounds(1) [of "i - 1"] by simp
qed

function year_up :: "int \<Rightarrow> int \<Rightarrow> int" where
  "year_up d y = (if DayFromYear (y + 1) \<le> d then year_up d (y + 1) else y)"
  by pat_completeness auto
termination
proof (relation "measure (\<lambda>(d, y). nat (d + 1 - DayFromYear (y + 1)))")
  show "wf (measure (\<lambda>(d, y). nat (d + 1 - DayFromYear (y + 1))))" by simp
next
  fix d y :: int
  assume "DayFromYear (y + 1) \<le> d"
  then show "((d, y + 1), (d, y)) \<in> measure (\<lambda>(d, y). nat (d + 1 - DayFromYear (y + 1)))"
    using DayFromYear_less_Suc [of "y + 1"] by simp
qed

declare year_up.simps [simp del]

definition YearFromDay :: "int \<Rightarrow> int" where
  "YearFromDay d = year_up d (if 0 \<le> d then 1970 + d div 366 else 1970 + d div 365)"

lemma year_up_upper: "d < DayFromYear (year_up d y + 1)"
proof (induction d y rule: year_up.induct)
  case (1 d y)
  then show ?case by (subst year_up.simps) simp
qed

lemma year_up_lower: "DayFromYear y \<le> d \<Longrightarrow> DayFromYear (year_up d y) \<le> d"
proof (induction d y rule: year_up.induct)
  case (1 d y)
  then show ?case by (subst year_up.simps) simp
qed

lemma year_start: "DayFromYear (if 0 \<le> d then 1970 + d div 366 else 1970 + d div 365) \<le> d"
proof (cases "0 \<le> d")
  case True
  then have "0 \<le> d div 366" by (simp add: pos_imp_zdiv_nonneg_iff)
  then have "DayFromYear (1970 + d div 366) \<le> 366 * (d div 366)"
    using DayFromYear_upper [of "1970 + d div 366"] by simp
  also have "\<dots> \<le> d"
    using mult_div_mod_eq [of 366 d] pos_mod_sign [of 366 d] by linarith
  finally show ?thesis using True by simp
next
  case False
  then have "d div 365 \<le> 0" by (simp add: div_nonpos_pos_le0)
  then have "DayFromYear (1970 + d div 365) \<le> 365 * (d div 365)"
    using DayFromYear_upper_neg [of "1970 + d div 365"] by simp
  also have "\<dots> \<le> d"
    using mult_div_mod_eq [of 365 d] pos_mod_sign [of 365 d] by linarith
  finally show ?thesis using False by simp
qed

lemma YearFromDay_bounds:
  "DayFromYear (YearFromDay d) \<le> d" "d < DayFromYear (YearFromDay d + 1)"
  unfolding YearFromDay_def using year_up_lower [OF year_start] year_up_upper by blast+

lemma YearFromDay_unique:
  assumes "DayFromYear y \<le> d" "d < DayFromYear (y + 1)"
  shows "YearFromDay d = y"
proof (rule ccontr)
  assume ne: "YearFromDay d \<noteq> y"
  show False
  proof (cases "YearFromDay d < y")
    case True
    then have "DayFromYear (YearFromDay d + 1) \<le> DayFromYear y"
      by (intro DayFromYear_mono) simp
    then show False using assms(1) YearFromDay_bounds(2) [of d] by simp
  next
    case False
    with ne have "y + 1 \<le> YearFromDay d" by simp
    then have "DayFromYear (y + 1) \<le> DayFromYear (YearFromDay d)"
      by (rule DayFromYear_mono)
    then show False using assms(2) YearFromDay_bounds(1) [of d] by simp
  qed
qed


definition DaysBeforeMonth :: "int \<Rightarrow> int \<Rightarrow> int" where
  "DaysBeforeMonth m l =
     (if m = 0 then 0 else if m = 1 then 31 else if m = 2 then 59 + l
      else if m = 3 then 90 + l else if m = 4 then 120 + l else if m = 5 then 151 + l
      else if m = 6 then 181 + l else if m = 7 then 212 + l else if m = 8 then 243 + l
      else if m = 9 then 273 + l else if m = 10 then 304 + l else 334 + l)"

definition DayWithinYear :: "int \<Rightarrow> int" where
  "DayWithinYear d = d - DayFromYear (YearFromDay d)"

definition MonthFromDay :: "int \<Rightarrow> int" where
  "MonthFromDay d =
     (let dy = DayWithinYear d; l = InLeapYear (YearFromDay d)
      in if dy < 31 then 0 else if dy < 59 + l then 1 else if dy < 90 + l then 2
         else if dy < 120 + l then 3 else if dy < 151 + l then 4 else if dy < 181 + l then 5
         else if dy < 212 + l then 6 else if dy < 243 + l then 7 else if dy < 273 + l then 8
         else if dy < 304 + l then 9 else if dy < 334 + l then 10 else 11)"

definition DateFromDay :: "int \<Rightarrow> int" where
  "DateFromDay d =
     DayWithinYear d - DaysBeforeMonth (MonthFromDay d) (InLeapYear (YearFromDay d)) + 1"

definition MakeDay :: "int \<Rightarrow> int \<Rightarrow> int \<Rightarrow> int" where
  "MakeDay year month date =
     (let ym = year + month div 12; mn = month mod 12
      in DayFromYear ym + DaysBeforeMonth mn (InLeapYear ym) + date - 1)"

definition days_in_month :: "int \<Rightarrow> int \<Rightarrow> int" where
  "days_in_month y m =
     (if m = 1 then 28 + InLeapYear y
      else if m = 3 \<or> m = 5 \<or> m = 8 \<or> m = 10 then 30 else 31)"

lemma InLeapYear_cases: "InLeapYear y = 0 \<or> InLeapYear y = 1"
  by (simp add: InLeapYear_def)

lemma DaysInYear_leap: "DaysInYear y = 365 + InLeapYear y"
  by (simp add: InLeapYear_def DaysInYear_def)

lemma DayWithinYear_bounds:
  "0 \<le> DayWithinYear d" "DayWithinYear d < 365 + InLeapYear (YearFromDay d)"
  using YearFromDay_bounds [of d] DayFromYear_Suc [of "YearFromDay d"]
  by (simp_all add: DayWithinYear_def DaysInYear_leap)

lemma month_cases:
  assumes "0 \<le> m" "m \<le> 11"
  shows "m = 0 \<or> m = 1 \<or> m = 2 \<or> m = 3 \<or> m = 4 \<or> m = 5 \<or> m = 6 \<or> m = 7 \<or> m = 8
           \<or> m = 9 \<or> m = 10 \<or> m = (11::int)"
  using assms by arith

lemma MonthFromDay_range: "0 \<le> MonthFromDay d" "MonthFromDay d \<le> 11"
  by (simp_all add: MonthFromDay_def Let_def)

lemma DateFromDay_range:
  "1 \<le> DateFromDay d" "DateFromDay d \<le> days_in_month (YearFromDay d) (MonthFromDay d)"
  using DayWithinYear_bounds [of d] InLeapYear_cases [of "YearFromDay d"]
  by (auto simp add: DateFromDay_def MonthFromDay_def DaysBeforeMonth_def days_in_month_def Let_def)

lemma MakeDay_in_year:
  assumes "0 \<le> m" "m \<le> 11"
  shows "MakeDay y m dt = DayFromYear y + DaysBeforeMonth m (InLeapYear y) + dt - 1"
  using assms by (simp add: MakeDay_def Let_def div_pos_pos_trivial mod_pos_pos_trivial)

lemma civil_of_MakeDay:
  assumes m: "0 \<le> m" "m \<le> 11" and dt: "1 \<le> dt" "dt \<le> days_in_month y m"
  shows "YearFromDay (MakeDay y m dt) = y"
    and "MonthFromDay (MakeDay y m dt) = m"
    and "DateFromDay (MakeDay y m dt) = dt"
proof -
  let ?l = "InLeapYear y"
  let ?d = "MakeDay y m dt"
  have d: "?d = DayFromYear y + DaysBeforeMonth m ?l + dt - 1"
    using m by (rule MakeDay_in_year)
  have off: "0 \<le> DaysBeforeMonth m ?l + dt - 1" "DaysBeforeMonth m ?l + dt - 1 < 365 + ?l"
    using month_cases [OF m] dt InLeapYear_cases [of y]
    by (auto simp add: DaysBeforeMonth_def days_in_month_def)
  show y: "YearFromDay ?d = y"
    by (rule YearFromDay_unique) (use d off in \<open>simp_all add: DayFromYear_Suc DaysInYear_leap\<close>)
  have dwy: "DayWithinYear ?d = DaysBeforeMonth m ?l + dt - 1"
    by (simp add: DayWithinYear_def y) (simp add: d)
  have l: "0 \<le> ?l" "?l \<le> 1"
    by (simp_all add: InLeapYear_def)
  show mo: "MonthFromDay ?d = m"
    unfolding MonthFromDay_def y dwy Let_def
    using month_cases [OF m] dt l
    by (elim disjE) (simp_all add: DaysBeforeMonth_def days_in_month_def)
  show "DateFromDay ?d = dt"
    by (simp add: DateFromDay_def y mo dwy)
qed




subsection \<open>\<^verbatim>\<open>Date\<close> objects\<close>

text \<open>
  The clock: \<open>now\<close> is the time value that \<^verbatim>\<open>new Date()\<close> and
  \<^verbatim>\<open>Date.now()\<close> read, \<open>LocalTZA\<close> the milliseconds to add to UTC to get local
  time. The getters read local time; a date-only string \<^verbatim>\<open>YYYY-MM-DD\<close> is parsed
  as midnight UTC; the constructor \<^verbatim>\<open>new Date(y, m, d)\<close> and \<^verbatim>\<open>setDate\<close>
  normalise through MakeDay in local time, and the constructor takes a year from 0 to
  99 as 1900 + year.
\<close>

record clock =
  now :: int
  LocalTZA :: int

definition LocalTime :: "clock \<Rightarrow> int \<Rightarrow> int" where
  "LocalTime clk t = t + LocalTZA clk"

definition UTC :: "clock \<Rightarrow> int \<Rightarrow> int" where
  "UTC clk t = t - LocalTZA clk"

definition getFullYear :: "clock \<Rightarrow> int \<Rightarrow> int" where
  "getFullYear clk t = YearFromDay (Day (LocalTime clk t))"

definition getMonth :: "clock \<Rightarrow> int \<Rightarrow> int" where
  "getMonth clk t = MonthFromDay (Day (LocalTime clk t))"

definition getDate :: "clock \<Rightarrow> int \<Rightarrow> int" where
  "getDate clk t = DateFromDay (Day (LocalTime clk t))"

definition new_Date_ymd :: "clock \<Rightarrow> int \<Rightarrow> int \<Rightarrow> int \<Rightarrow> int" where
  "new_Date_ymd clk year month dt =
     UTC clk (MakeDay (if 0 \<le> year \<and> year \<le> 99 then 1900 + year else year) month dt * msPerDay)"

definition setDate :: "clock \<Rightarrow> int \<Rightarrow> int \<Rightarrow> int" where
  "setDate clk t dt =
     (let l = LocalTime clk t
      in UTC clk (MakeDay (YearFromDay (Day l)) (MonthFromDay (Day l)) dt * msPerDay
                  + TimeWithinDay l))"

text \<open>
  \<^verbatim>\<open>new Date(string)\<close> on the date-only form that a date input yields:
  \<open>iso_date\<close> reads year, month (from 1) and day, and the time value is midnight UTC of
  that day. \<open>None\<close> is the invalid date: a string of another shape, or a day that the
  month does not have.
  (The platform reads further forms, date-times among them; the ledger's dates are of
  this form.)
\<close>

definition iso_date :: "string \<Rightarrow> (int \<times> int \<times> int) option" where
  "iso_date s =
     (if length s = 10 \<and> s ! 4 = CHR ''-'' \<and> s ! 7 = CHR ''-''
         \<and> list_all is_digit (take 4 s) \<and> list_all is_digit (take 2 (drop 5 s))
         \<and> list_all is_digit (drop 8 s)
      then (let y = digits_val (take 4 s); m = digits_val (take 2 (drop 5 s));
                d = digits_val (drop 8 s)
            in if 1 \<le> m \<and> m \<le> 12 \<and> 1 \<le> d \<and> d \<le> days_in_month y (m - 1)
               then Some (y, m, d) else None)
      else None)"

definition new_Date_string :: "string \<Rightarrow> int option" where
  "new_Date_string s = map_option (\<lambda>(y, m, d). MakeDay y (m - 1) d * msPerDay) (iso_date s)"

text \<open>Numbers that may be \<^verbatim>\<open>NaN\<close> (\<open>None\<close>): \<^verbatim>\<open>===\<close>, \<^verbatim>\<open>>=\<close> and
  \<^verbatim>\<open>-\<close>. A getter of an invalid date gives \<^verbatim>\<open>NaN\<close>.\<close>

definition js_strict_eq :: "int option \<Rightarrow> int option \<Rightarrow> bool" where
  "js_strict_eq a b = (case (a, b) of (Some x, Some y) \<Rightarrow> x = y | _ \<Rightarrow> False)"

definition js_ge :: "int option \<Rightarrow> int option \<Rightarrow> bool" where
  "js_ge a b = (case (a, b) of (Some x, Some y) \<Rightarrow> y \<le> x | _ \<Rightarrow> False)"

definition js_minus :: "int option \<Rightarrow> int option \<Rightarrow> int option" where
  "js_minus a b = (case (a, b) of (Some x, Some y) \<Rightarrow> Some (x - y) | _ \<Rightarrow> None)"

definition isSameDay :: "clock \<Rightarrow> int option \<Rightarrow> int option \<Rightarrow> bool" where
  "isSameDay clk d1 d2 =
     (js_strict_eq (map_option (getFullYear clk) d1) (map_option (getFullYear clk) d2) \<and>
      js_strict_eq (map_option (getMonth clk) d1) (map_option (getMonth clk) d2) \<and>
      js_strict_eq (map_option (getDate clk) d1) (map_option (getDate clk) d2))"

subsection \<open>The ledger and its persistence\<close>

text \<open>
  The fields \<^verbatim>\<open>id\<close> and \<^verbatim>\<open>note\<close> of an expense are \<open>id_e\<close> and
  \<open>note_e\<close> here. \<open>ledger\<close> is the type of the global \<^verbatim>\<open>state\<close>.
\<close>

record expense =
  id_e :: int
  amount :: rat
  category :: string
  date :: string
  note_e :: string

record ledger =
  allowance :: rat
  goal :: rat
  expenses :: "expense list"

type_synonym storage = "string \<Rightarrow> string option"

record app =
  state :: ledger
  localStorage :: storage

definition initial_state :: ledger where
  "initial_state = \<lparr>allowance = 0, goal = 0, expenses = []\<rparr>"

definition json_of_expense :: "expense \<Rightarrow> json" where
  "json_of_expense e =
     JObject [(''id'', JNumber (of_int (id_e e))), (''amount'', JNumber (amount e)),
              (''category'', JString (category e)), (''date'', JString (date e)),
              (''note'', JString (note_e e))]"

definition json_of_state :: "ledger \<Rightarrow> json" where
  "json_of_state s =
     JObject [(''allowance'', JNumber (allowance s)), (''goal'', JNumber (goal s)),
              (''expenses'', JArray (map json_of_expense (expenses s)))]"

datatype exn = SyntaxError | TypeError

fun truthy :: "json \<Rightarrow> bool" where
  "truthy JNull = False"
| "truthy (JBool b) = b"
| "truthy (JNumber x) = (x \<noteq> 0)"
| "truthy (JString s) = (s \<noteq> [])"
| "truthy (JArray vs) = True"
| "truthy (JObject ms) = True"

text \<open>Reading a property: \<open>None\<close> is \<^verbatim>\<open>undefined\<close>; a later member of an object
  literal overrides an earlier one of the same name.\<close>

fun get_prop :: "json \<Rightarrow> string \<Rightarrow> json option" where
  "get_prop (JObject ms) k = map_of (rev ms) k"
| "get_prop v k = None"

definition or_else :: "json option \<Rightarrow> json \<Rightarrow> json" where
  "or_else v d = (case v of None \<Rightarrow> d | Some x \<Rightarrow> if truthy x then x else d)"

text \<open>
  \<open>loadData\<close> takes the storage and the state object as it stands (a JSON value, since
  what is loaded is whatever the stored text holds) and returns the state object after
  the call, or the exception that leaves the function: the \<^verbatim>\<open>SyntaxError\<close> of
  \<^verbatim>\<open>JSON.parse\<close>, or the \<^verbatim>\<open>TypeError\<close> of reading a property of
  \<^verbatim>\<open>null\<close>. Nothing is assigned before either exception.
\<close>

definition loadData :: "storage \<Rightarrow> json \<Rightarrow> exn + json" where
  "loadData ls st =
     (case ls ''hostelFinanceData'' of
        None \<Rightarrow> Inr st
      | Some savedData \<Rightarrow>
          if savedData = [] then Inr st
          else (case JSON_parse savedData of
                  None \<Rightarrow> Inl SyntaxError
                | Some parsed \<Rightarrow>
                    if parsed = JNull then Inl TypeError
                    else Inr (JObject
                      [(''allowance'', or_else (get_prop parsed ''allowance'') (JNumber 0)),
                       (''goal'', or_else (get_prop parsed ''goal'') (JNumber 0)),
                       (''expenses'', or_else (get_prop parsed ''expenses'') (JArray []))])))"

text \<open>\<open>saveData\<close> overwrites the slot; the two render calls that follow it in the source
  write to the page only (\<open>updateDashboard\<close> and \<open>renderExpenses\<close> below).\<close>

definition saveData :: "app \<Rightarrow> app" where
  "saveData a =
     a\<lparr>localStorage := (localStorage a)(''hostelFinanceData'' \<mapsto> JSON_stringify (json_of_state (state a)))\<rparr>"

subsection \<open>Dashboard\<close>

definition totalSpent :: "ledger \<Rightarrow> rat" where
  "totalSpent s = foldl (\<lambda>sum exp. sum + amount exp) 0 (expenses s)"

definition balance :: "ledger \<Rightarrow> rat" where
  "balance s = allowance s - totalSpent s"

definition daysInMonth :: "clock \<Rightarrow> int" where
  "daysInMonth clk =
     getDate clk (new_Date_ymd clk (getFullYear clk (now clk)) (getMonth clk (now clk) + 1) 0)"

definition today :: "clock \<Rightarrow> int" where
  "today clk = getDate clk (now clk)"

definition remainingDays :: "clock \<Rightarrow> int" where
  "remainingDays clk = daysInMonth clk - today clk"

text \<open>\<^verbatim>\<open>balance / (remainingDays || 1)\<close>: only 0 is replaced by 1.\<close>

definition dailyBudget :: "rat \<Rightarrow> int \<Rightarrow> rat" where
  "dailyBudget b r = b / of_int (if r = 0 then 1 else r)"

definition idealDaily :: "ledger \<Rightarrow> int \<Rightarrow> rat" where
  "idealDaily s totalDays = allowance s / of_int totalDays"

text \<open>The text and the colour that \<open>updateHealthIndicator\<close> writes, on exact numbers
  (\<open>updateHealthIndicator_fp\<close> below takes the rounding of the platform into account).\<close>

definition updateHealthIndicator :: "ledger \<Rightarrow> rat \<Rightarrow> int \<Rightarrow> int \<Rightarrow> string \<times> string" where
  "updateHealthIndicator s b r totalDays =
     (if allowance s = 0 then (''Set Allowance'', ''#94a3b8'')
      else if b < 0 then (''Health: Critical'', ''#ef4444'')
      else if dailyBudget b r < idealDaily s totalDays * (1 / 2) then (''Health: Tight'', ''#f59e0b'')
      else if idealDaily s totalDays \<le> dailyBudget b r then (''Health: Healthy'', ''#10b981'')
      else (''Health: Careful'', ''#f59e0b''))"

text \<open>
  What \<open>updateSavingsProgress\<close> writes: the progress text (its two amounts, before
  \<open>formatCurrency\<close>), the rounded percentage and the width of the bar in percent.
\<close>

datatype progress_text = No_goal_set | Of_goal rat rat

record savings =
  savingsProgressText :: progress_text
  savingsPercentage :: int
  savingsBar :: rat

definition Math_round :: "rat \<Rightarrow> int" where
  "Math_round x = \<lfloor>x + 1 / 2\<rfloor>"

definition updateSavingsProgress :: "ledger \<Rightarrow> rat \<Rightarrow> savings" where
  "updateSavingsProgress s b =
     (if goal s = 0
      then \<lparr>savingsProgressText = No_goal_set, savingsPercentage = 0, savingsBar = 0\<rparr>
      else (let progress = min 100 (max 0 (b / goal s * 100))
            in \<lparr>savingsProgressText = Of_goal (max 0 b) (goal s),
                savingsPercentage = Math_round progress, savingsBar = progress\<rparr>))"

record dashboard =
  totalAllowance_el :: rat
  totalSpent_el :: rat
  currentBalance_el :: rat
  daysLeft_el :: int
  healthIndicator_el :: "string \<times> string"
  savings_el :: savings

definition updateDashboard :: "clock \<Rightarrow> ledger \<Rightarrow> dashboard" where
  "updateDashboard clk s =
     \<lparr>totalAllowance_el = allowance s, totalSpent_el = totalSpent s,
      currentBalance_el = balance s, daysLeft_el = remainingDays clk,
      healthIndicator_el = updateHealthIndicator s (balance s) (remainingDays clk) (daysInMonth clk),
      savings_el = updateSavingsProgress s (balance s)\<rparr>"

subsection \<open>The health status under the platform's arithmetic\<close>

text \<open>
  Which health text is written depends on the sign of the balance and on the order of
  two quotients, and the rounding of the platform's arithmetic can change both. The
  health indicator is therefore modelled a second time, with that arithmetic as a
  parameter. A number value is a \<open>double\<close>: a finite value (a rational; the numbers of
  the ledger are of this kind), negative zero, an infinity or \<^verbatim>\<open>NaN\<close>. The four
  operations \<^verbatim>\<open>+ - * /\<close> on number values are the fields of \<open>arith\<close>;
  \<^verbatim>\<open><\<close> and \<^verbatim>\<open>>=\<close> compare values exactly and are false when an operand is
  \<^verbatim>\<open>NaN\<close>. \<open>remainingDays\<close> and \<open>totalDays\<close> are small integers, which the
  platform holds exactly.
\<close>

datatype double = Finite rat | Neg_zero | Infinity | Neg_infinity | Not_a_number

record arith =
  fadd :: "double \<Rightarrow> double \<Rightarrow> double"
  fsub :: "double \<Rightarrow> double \<Rightarrow> double"
  fmul :: "double \<Rightarrow> double \<Rightarrow> double"
  fdiv :: "double \<Rightarrow> double \<Rightarrow> double"

definition rank :: "double \<Rightarrow> (int \<times> rat) option" where
  "rank d =
     (case d of Finite x \<Rightarrow> Some (0, x) | Neg_zero \<Rightarrow> Some (0, 0) | Infinity \<Rightarrow> Some (1, 0)
      | Neg_infinity \<Rightarrow> Some (- 1, 0) | Not_a_number \<Rightarrow> None)"

definition less_than :: "double \<Rightarrow> double \<Rightarrow> bool" where
  "less_than a b =
     (case (rank a, rank b) of
        (Some (i, x), Some (j, y)) \<Rightarrow> i < j \<or> (i = j \<and> x < y)
      | _ \<Rightarrow> False)"

definition at_least :: "double \<Rightarrow> double \<Rightarrow> bool" where
  "at_least a b =
     (case (rank a, rank b) of
        (Some (i, x), Some (j, y)) \<Rightarrow> j < i \<or> (i = j \<and> y \<le> x)
      | _ \<Rightarrow> False)"

text \<open>\<open>totalSpent\<close> and \<open>balance\<close> as \<open>updateDashboard\<close> computes them, and
  \<open>updateHealthIndicator\<close>, on number values.\<close>

definition totalSpent_fp :: "arith \<Rightarrow> ledger \<Rightarrow> double" where
  "totalSpent_fp ar s =
     foldl (\<lambda>sum exp. fadd ar sum (Finite (amount exp))) (Finite 0) (expenses s)"

definition balance_fp :: "arith \<Rightarrow> ledger \<Rightarrow> double" where
  "balance_fp ar s = fsub ar (Finite (allowance s)) (totalSpent_fp ar s)"

definition updateHealthIndicator_fp ::
    "arith \<Rightarrow> ledger \<Rightarrow> double \<Rightarrow> int \<Rightarrow> int \<Rightarrow> string \<times> string" where
  "updateHealthIndicator_fp ar s b r totalDays =
     (let dailyBudget = fdiv ar b (Finite (of_int (if r = 0 then 1 else r)));
          color = ''#94a3b8''
      in if allowance s = 0 then (''Set Allowance'', color)
         else (let idealDaily = fdiv ar (Finite (allowance s)) (Finite (of_int totalDays))
               in if less_than b (Finite 0) then (''Health: Critical'', ''#ef4444'')
                  else if less_than dailyBudget (fmul ar idealDaily (Finite (1 / 2)))
                    then (''Health: Tight'', ''#f59e0b'')
                  else if at_least dailyBudget idealDaily then (''Health: Healthy'', ''#10b981'')
                  else (''Health: Careful'', ''#f59e0b'')))"

text \<open>The health indicator that \<open>updateDashboard\<close> writes, for a clock and a ledger.\<close>

definition healthIndicator_fp :: "arith \<Rightarrow> clock \<Rightarrow> ledger \<Rightarrow> string \<times> string" where
  "healthIndicator_fp ar clk s =
     updateHealthIndicator_fp ar s (balance_fp ar s) (remainingDays clk) (daysInMonth clk)"

text \<open>
  Two arithmetics to compute with. \<open>finite_arith fl\<close> rounds the exact result of an
  operation on finite operands by \<open>fl\<close> (it is not meant for other operands);
  \<open>finite_arith id\<close> does not round. \<open>nearest53\<close> rounds to 53 significant bits,
  ties to even: the rounding of a binary64 number within its normal range.
\<close>

definition finite_arith :: "(rat \<Rightarrow> rat) \<Rightarrow> arith" where
  "finite_arith fl =
     \<lparr>fadd = (\<lambda>a b. case (a, b) of (Finite x, Finite y) \<Rightarrow> Finite (fl (x + y))
                      | _ \<Rightarrow> Not_a_number),
      fsub = (\<lambda>a b. case (a, b) of (Finite x, Finite y) \<Rightarrow> Finite (fl (x - y))
                      | _ \<Rightarrow> Not_a_number),
      fmul = (\<lambda>a b. case (a, b) of (Finite x, Finite y) \<Rightarrow> Finite (fl (x * y))
                      | _ \<Rightarrow> Not_a_number),
      fdiv = (\<lambda>a b. case (a, b) of
                (Finite x, Finite y) \<Rightarrow>
                  if y \<noteq> 0 then Finite (fl (x / y))
                  else if 0 < x then Infinity else if x < 0 then Neg_infinity
                  else Not_a_number
              | _ \<Rightarrow> Not_a_number)\<rparr>"

function bit_length :: "int \<Rightarrow> int" where
  "bit_length n = (if n \<le> 0 then 0 else 1 + bit_length (n div 2))"
  by pat_completeness auto
termination
  by (relation "measure nat") auto

declare bit_length.simps [simp del]

definition pow2 :: "int \<Rightarrow> rat" where
  "pow2 e = (if 0 \<le> e then 2 ^ nat e else 1 / 2 ^ nat (- e))"

definition floor_log2 :: "rat \<Rightarrow> int" where
  "floor_log2 a =
     (let (p, q) = quotient_of a; d = bit_length p - bit_length q
      in if pow2 d \<le> a then d else d - 1)"

definition round_even :: "rat \<Rightarrow> int" where
  "round_even q =
     (let f = \<lfloor>q\<rfloor>; d = q - of_int f
      in if d < 1 / 2 then f else if 1 / 2 < d then f + 1 else if even f then f else f + 1)"

definition nearest53 :: "rat \<Rightarrow> rat" where
  "nearest53 x =
     (if x = 0 then 0
      else (let e = floor_log2 \<bar>x\<bar> - 52
            in sgn x * of_int (round_even (\<bar>x\<bar> / pow2 e)) * pow2 e))"

subsection \<open>The list of expenses\<close>

text \<open>
  \<^verbatim>\<open>Array.prototype.sort\<close> with a comparator: the sort is stable, and a comparator
  result of \<^verbatim>\<open>NaN\<close> counts as 0. It is modelled by insertion from the right, which
  keeps an element before every later element that the comparator does not put first.
\<close>

definition SortCompare :: "('a \<Rightarrow> 'a \<Rightarrow> int option) \<Rightarrow> 'a \<Rightarrow> 'a \<Rightarrow> int" where
  "SortCompare comparefn x y = (case comparefn x y of None \<Rightarrow> 0 | Some v \<Rightarrow> v)"

fun sort_insert :: "('a \<Rightarrow> 'a \<Rightarrow> int option) \<Rightarrow> 'a \<Rightarrow> 'a list \<Rightarrow> 'a list" where
  "sort_insert comparefn x [] = [x]"
| "sort_insert comparefn x (y # ys) =
     (if SortCompare comparefn x y \<le> 0 then x # y # ys else y # sort_insert comparefn x ys)"

definition Array_sort :: "('a \<Rightarrow> 'a \<Rightarrow> int option) \<Rightarrow> 'a list \<Rightarrow> 'a list" where
  "Array_sort comparefn xs = foldr (sort_insert comparefn) xs []"

text \<open>
  \<open>renderExpenses\<close> returns the expenses in the order in which it appends them to the
  page. The two readings of the clock in the week branch (\<open>now\<close> and \<open>oneWeekAgo\<close>)
  are taken at the same instant.
\<close>

definition renderExpenses :: "clock \<Rightarrow> ledger \<Rightarrow> string \<Rightarrow> expense list" where
  "renderExpenses clk s flt =
     (let filteredExpenses =
            (if flt = ''today''
               then filter (\<lambda>exp. isSameDay clk (new_Date_string (date exp)) (Some (now clk)))
                      (expenses s)
             else if flt = ''week''
               then (let oneWeekAgo = setDate clk (now clk) (getDate clk (now clk) - 7)
                     in filter (\<lambda>exp. js_ge (new_Date_string (date exp)) (Some oneWeekAgo))
                          (expenses s))
             else expenses s)
      in Array_sort (\<lambda>a b. js_minus (new_Date_string (date b)) (new_Date_string (date a)))
           filteredExpenses)"

subsection \<open>Form handlers\<close>

text \<open>
  \<open>amount\<close> in a handler is the result of \<^verbatim>\<open>parseFloat\<close> on a number input: a
  finite number or \<^verbatim>\<open>NaN\<close>. The expense handler also takes the clock, for
  \<^verbatim>\<open>Date.now()\<close>, and \<open>deleteExpense\<close> the answer to \<^verbatim>\<open>confirm\<close>.
\<close>

datatype number = NaN | Num rat

definition positive :: "number \<Rightarrow> bool" where
  "positive a = (case a of NaN \<Rightarrow> False | Num x \<Rightarrow> 0 < x)"

definition num_value :: "number \<Rightarrow> rat" where
  "num_value a = (case a of NaN \<Rightarrow> 0 | Num x \<Rightarrow> x)"

definition allowanceForm_submit :: "number \<Rightarrow> app \<Rightarrow> app" where
  "allowanceForm_submit a ap =
     (if positive a then saveData (ap\<lparr>state := (state ap)\<lparr>allowance := num_value a\<rparr>\<rparr>) else ap)"

definition goalForm_submit :: "number \<Rightarrow> app \<Rightarrow> app" where
  "goalForm_submit a ap =
     (if positive a then saveData (ap\<lparr>state := (state ap)\<lparr>goal := num_value a\<rparr>\<rparr>) else ap)"

definition expenseForm_submit ::
    "clock \<Rightarrow> number \<Rightarrow> string \<Rightarrow> string \<Rightarrow> string \<Rightarrow> app \<Rightarrow> app" where
  "expenseForm_submit clk a cat dt nt ap =
     (if positive a \<and> dt \<noteq> []
      then (let newExpense = \<lparr>id_e = now clk, amount = num_value a, category = cat,
                               date = dt, note_e = nt\<rparr>
            in saveData (ap\<lparr>state := (state ap)\<lparr>expenses := expenses (state ap) @ [newExpense]\<rparr>\<rparr>))
      else ap)"

definition deleteExpense :: "bool \<Rightarrow> int \<Rightarrow> app \<Rightarrow> app" where
  "deleteExpense confirmed i ap =
     (if confirmed
      then saveData (ap\<lparr>state := (state ap)\<lparr>expenses := filter (\<lambda>exp. id_e exp \<noteq> i) (expenses (state ap))\<rparr>\<rparr>)
      else ap)"


subsection \<open>The specification's own words\<close>

text \<open>
  Definitions that follow the specification rather than the code: the five health
  statuses and their precedence, the text shown for each, \<open>clamp\<close>, and the order
  "newest first". \<open>days_in_month\<close> above is the length of a calendar month.
\<close>

datatype health = Set_Allowance | Critical | Tight | Healthy | Careful

definition health_status :: "arith \<Rightarrow> rat \<Rightarrow> double \<Rightarrow> double \<Rightarrow> double \<Rightarrow> health" where
  "health_status ar allowance_v balance_v dailyBudget_v idealDaily_v =
     (if allowance_v = 0 then Set_Allowance
      else if less_than balance_v (Finite 0) then Critical
      else if less_than dailyBudget_v (fmul ar idealDaily_v (Finite (1 / 2))) then Tight
      else if at_least dailyBudget_v idealDaily_v then Healthy
      else Careful)"

fun status_text :: "health \<Rightarrow> string" where
  "status_text Set_Allowance = ''Set Allowance''"
| "status_text Critical = ''Health: Critical''"
| "status_text Tight = ''Health: Tight''"
| "status_text Healthy = ''Health: Healthy''"
| "status_text Careful = ''Health: Careful''"


text \<open>
  "Sorted by date, newest first": each entry's date is a valid date that is not before
  the date of any later entry.
\<close>

definition newest_first :: "expense \<Rightarrow> expense \<Rightarrow> bool" where
  "newest_first a b =
     (case (new_Date_string (date a), new_Date_string (date b)) of
        (Some x, Some y) \<Rightarrow> y \<le> x | _ \<Rightarrow> False)"

subsection \<open>The filter of \<open>renderExpenses\<close> as a predicate\<close>

text \<open>The test that the code applies to an expense under a filter keyword (from the
  source, not from the specification).\<close>

definition selected :: "clock \<Rightarrow> string \<Rightarrow> expense \<Rightarrow> bool" where
  "selected clk flt e =
     (if flt = ''today'' then isSameDay clk (new_Date_string (date e)) (Some (now clk))
      else if flt = ''week''
        then js_ge (new_Date_string (date e))
               (Some (setDate clk (now clk) (getDate clk (now clk) - 7)))
      else True)"

subsection \<open>Notions used for the round trip through JSON text\<close>

text \<open>
  A number with a finite decimal expansion: the denominator of its lowest terms divides
  a power of ten (and then the power whose exponent is the denominator itself).
\<close>

definition decimal :: "rat \<Rightarrow> bool" where
  "decimal x = (snd (quotient_of x) dvd 10 ^ nat (snd (quotient_of x)))"

text \<open>The tokens of the text that \<open>JSON_stringify\<close> prints for a value, and the values
  all of whose numbers are decimal.\<close>

fun tokens_of :: "json \<Rightarrow> token list" where
  "tokens_of JNull = [TNull]"
| "tokens_of (JBool b) = [if b then TTrue else TFalse]"
| "tokens_of (JNumber x) = [TNumber x]"
| "tokens_of (JString s) = [TString s]"
| "tokens_of (JArray vs) = LBracket # join [Comma] (map tokens_of vs) @ [RBracket]"
| "tokens_of (JObject ms) =
     LBrace # join [Comma] (map (\<lambda>(k, v). TString k # Colon # tokens_of v) ms) @ [RBrace]"

fun decimal_json :: "json \<Rightarrow> bool" where
  "decimal_json (JNumber x) = decimal x"
| "decimal_json (JArray vs) = list_all decimal_json vs"
| "decimal_json (JObject ms) = list_all (\<lambda>(k, v). decimal_json v) ms"
| "decimal_json v = True"

definition word_end :: "string \<Rightarrow> bool" where
  "word_end rest = (case rest of [] \<Rightarrow> True | c # cs \<Rightarrow> \<not> is_word_char c)"

text \<open>The stack machine resumed in a state, and the phases in which a value may start.\<close>

definition resume :: "frame list \<times> phase \<Rightarrow> token list \<Rightarrow> json option" where
  "resume st ts = parse_from (fst st) (snd st) ts"

definition value_phase :: "phase \<Rightarrow> bool" where
  "value_phase p = (p = Value \<or> p = ValueOrEnd)"

text \<open>A ledger whose numbers are decimal: the allowance, the goal and every amount (an
  id is an integer).\<close>

definition decimal_ledger :: "ledger \<Rightarrow> bool" where
  "decimal_ledger s =
     (decimal (allowance s) \<and> decimal (goal s) \<and> list_all (\<lambda>e. decimal (amount e)) (expenses s))"

subsection \<open>Sample inputs\<close>


definition clock_pk :: clock where
  "clock_pk = \<lparr>now = 1705302000000, LocalTZA = 18000000\<rparr>"

definition clock_west :: clock where
  "clock_west = \<lparr>now = 1705338000000, LocalTZA = - 18000000\<rparr>"

definition expense_on :: "int \<Rightarrow> string \<Rightarrow> expense" where
  "expense_on i d = \<lparr>id_e = i, amount = 10, category = ''food'', date = d, note_e = []\<rparr>"

definition ledger_of :: "expense list \<Rightarrow> ledger" where
  "ledger_of xs = \<lparr>allowance = 1000, goal = 500, expenses = xs\<rparr>"

text \<open>The ledger of a user who typed 0.3 as allowance and 0.1 and 0.2 as amounts: each
  number is the binary64 value nearest to the decimal typed.\<close>

definition ledger_tenths :: ledger where
  "ledger_tenths = \<lparr>allowance = nearest53 (3 / 10), goal = 0,
      expenses = [\<lparr>id_e = 1, amount = nearest53 (1 / 10), category = ''food'',
                    date = ''2024-01-10'', note_e = []\<rparr>,
                  \<lparr>id_e = 2, amount = nearest53 (1 / 5), category = ''food'',
                    date = ''2024-01-11'', note_e = []\<rparr>]\<rparr>"

definition ledger_1000 :: ledger where
  "ledger_1000 = \<lparr>allowance = 1000, goal = 500,
      expenses = [\<lparr>id_e = 1706000000000, amount = 300, category = ''food'',
                    date = ''2024-01-20'', note_e = ''lunch''\<rparr>]\<rparr>"

text \<open>A ledger with decimal fractions, no goal, and a note that needs escapes.\<close>

definition ledger_cafe :: ledger where
  "ledger_cafe = \<lparr>allowance = 6003 / 4, goal = 0,
      expenses = [\<lparr>id_e = 1706000000000, amount = 25 / 2, category = ''food'',
                    date = ''2024-01-20'',
                    note_e = [CHR ''t'', CHR ''e'', CHR ''a'', CHR 0x22, CHR 0x5C, CHR 0x0A]\<rparr>,
                  \<lparr>id_e = 1706000000001, amount = 3 / 8, category = ''other'',
                    date = ''2024-01-21'', note_e = []\<rparr>]\<rparr>"

definition storage_with :: "string \<Rightarrow> storage" where
  "storage_with t = Map.empty(''hostelFinanceData'' \<mapsto> t)"

definition app_empty :: app where
  "app_empty = \<lparr>state = initial_state, localStorage = Map.empty\<rparr>"

definition app_cafe :: app where
  "app_cafe = \<lparr>state = ledger_cafe, localStorage = storage_with ''[1,''\<rparr>"

definition app_1000 :: app where
  "app_1000 = \<lparr>state = ledger_1000,
                localStorage = storage_with ''{allowance: 1000, goal: 500, expenses: []}''\<rparr>"


section \<open>\<^verbatim>\<open>JSON.parse\<close> inverts \<^verbatim>\<open>JSON.stringify\<close>\<close>

subsection \<open>Numbers\<close>

lemma of_char_digit_char:
  assumes "0 \<le> n" "n < 16"
  shows "(of_char (digit_char n) :: int) = n + (if n < 10 then 48 else 87)"
proof -
  have "(of_char (digit_char n) :: int) = (n + (if n < 10 then 48 else 87)) mod 256"
    by (simp add: digit_char_def of_char_of)
  also have "\<dots> = n + (if n < 10 then 48 else 87)"
    using assms by (simp add: mod_pos_pos_trivial)
  finally show ?thesis .
qed

lemma digit_char_digit:
  assumes "0 \<le> n" "n < 10"
  shows "is_digit (digit_char n)" "digit_val (digit_char n) = n"
    "(digit_char n = CHR ''0'') = (n = 0)"
proof -
  have c: "(of_char (digit_char n) :: int) = n + 48"
    using assms of_char_digit_char [of n] by simp
  show "is_digit (digit_char n)" using assms by (simp add: is_digit_def c)
  show "digit_val (digit_char n) = n" by (simp add: digit_val_def c)
  have "(digit_char n = CHR ''0'') = ((of_char (digit_char n) :: int) = of_char CHR ''0'')"
    by (metis of_char_eq_iff)
  then show "(digit_char n = CHR ''0'') = (n = 0)" by (simp add: c)
qed

lemma digits_val_snoc: "digits_val (ds @ [c]) = 10 * digits_val ds + digit_val c"
  by (simp add: digits_val_def)

lemma foldl_digits:
  "foldl (\<lambda>a c. 10 * a + digit_val c) a ds
     = a * 10 ^ length ds + foldl (\<lambda>a c. 10 * a + digit_val c) 0 ds"
proof -
  define f where "f = (\<lambda>(a::int) c. 10 * a + digit_val c)"
  have "foldl f a ds = a * 10 ^ length ds + foldl f 0 ds"
  proof (induction ds arbitrary: a)
    case Nil
    show ?case by simp
  next
    case (Cons d ds)
    have "foldl f a (d # ds) = foldl f (f a d) ds" by simp
    also have "\<dots> = f a d * 10 ^ length ds + foldl f 0 ds" by (rule Cons.IH)
    also have "f a d = 10 * a + digit_val d" by (simp add: f_def)
    finally have l: "foldl f a (d # ds) = (10 * a + digit_val d) * 10 ^ length ds + foldl f 0 ds" .
    have "foldl f 0 (d # ds) = foldl f (f 0 d) ds" by simp
    also have "\<dots> = f 0 d * 10 ^ length ds + foldl f 0 ds" by (rule Cons.IH)
    also have "f 0 d = digit_val d" by (simp add: f_def)
    finally have r: "foldl f 0 (d # ds) = digit_val d * 10 ^ length ds + foldl f 0 ds" .
    show ?case unfolding l r by (simp add: algebra_simps)
  qed
  then show ?thesis by (simp add: f_def)
qed

lemma digits_val_Cons: "digits_val (c # ds) = digit_val c * 10 ^ length ds + digits_val ds"
  using foldl_digits [of "digit_val c" ds] by (simp add: digits_val_def)

lemma show_nat_props:
  "0 \<le> n \<Longrightarrow> list_all is_digit (show_nat n) \<and> show_nat n \<noteq> [] \<and> digits_val (show_nat n) = n
     \<and> (length (show_nat n) = 1 \<or> hd (show_nat n) \<noteq> CHR ''0'')"
proof (induction n rule: show_nat.induct)
  case (1 n)
  show ?case
  proof (cases "n < 10")
    case True
    then show ?thesis
      using "1.prems" digit_char_digit [of n]
      by (subst (1 2 3 4 5) show_nat.simps) (simp add: digits_val_def)
  next
    case False
    then have d: "0 \<le> n div 10" "0 < n div 10" by simp_all
    have m: "0 \<le> n mod 10" "n mod 10 < 10" by simp_all
    from "1.IH" [OF False d(1)] have ih: "list_all is_digit (show_nat (n div 10))"
      "show_nat (n div 10) \<noteq> []" "digits_val (show_nat (n div 10)) = n div 10"
      "length (show_nat (n div 10)) = 1 \<or> hd (show_nat (n div 10)) \<noteq> CHR ''0''"
      by simp_all
    have h: "hd (show_nat (n div 10)) \<noteq> CHR ''0''"
    proof (cases "length (show_nat (n div 10)) = 1")
      case True
      then obtain c where c: "show_nat (n div 10) = [c]"
        by (cases "show_nat (n div 10)") simp_all
      with ih(3) have "digit_val c = n div 10" by (simp add: digits_val_def)
      with d(2) have "c \<noteq> CHR ''0''" by (auto simp add: digit_val_def)
      with c show ?thesis by simp
    next
      case False
      with ih(4) show ?thesis by simp
    qed
    have s: "show_nat n = show_nat (n div 10) @ [digit_char (n mod 10)]"
      using False by (subst show_nat.simps) simp
    show ?thesis
      using ih h digit_char_digit [OF m] by (simp add: s digits_val_snoc)
  qed
qed


lemma digit_quotient:
  assumes "0 \<le> r" "r < (q::int)"
  shows "0 \<le> r * 10 div q" "r * 10 div q < 10"
proof -
  have q: "0 < q" using assms by simp
  show "0 \<le> r * 10 div q" using assms q by (simp add: pos_imp_zdiv_nonneg_iff)
  show "r * 10 div q < 10"
  proof (rule ccontr)
    assume "\<not> r * 10 div q < 10"
    then have "q * 10 \<le> q * (r * 10 div q)" using q by simp
    also have "\<dots> \<le> r * 10"
      using mult_div_mod_eq [of q "r * 10"] pos_mod_sign [OF q, of "r * 10"] by linarith
    finally show False using assms by simp
  qed
qed

lemma show_frac_digits:
  "0 \<le> r \<Longrightarrow> r < q \<Longrightarrow> list_all is_digit (show_frac k r q)"
proof (induction k arbitrary: r)
  case 0
  show ?case by simp
next
  case (Suc k)
  have q: "0 < q" using Suc.prems by simp
  have d: "0 \<le> r * 10 div q" "r * 10 div q < 10"
    using Suc.prems by (rule digit_quotient)+
  have m: "0 \<le> r * 10 mod q" "r * 10 mod q < q" using q by simp_all
  show ?case using Suc.IH [OF m] digit_char_digit(1) [OF d] by simp
qed

lemma show_frac_value:
  assumes "0 < q"
  shows "0 \<le> r \<Longrightarrow> r < q \<Longrightarrow> q dvd r * 10 ^ k \<Longrightarrow>
     (of_int (digits_val (show_frac k r q)) / 10 ^ length (show_frac k r q) :: rat)
       = of_int r / of_int q"
proof (induction k arbitrary: r)
  case 0
  then have "q dvd r" by simp
  with 0 have "r = 0" by (meson zdvd_not_zless less_le not_less)
  then show ?case by (simp add: digits_val_def)
next
  case (Suc k)
  show ?case
  proof (cases "r = 0")
    case True
    then show ?thesis by (simp add: digits_val_def)
  next
    case False
    let ?d = "r * 10 div q" and ?m = "r * 10 mod q"
    let ?fs = "show_frac k ?m q"
    have d: "0 \<le> ?d" "?d < 10"
      using Suc.prems(1,2) by (rule digit_quotient)+
    have m: "0 \<le> ?m" "?m < q" using assms by simp_all
    have split: "r * 10 = ?d * q + ?m" by simp
    have "r * 10 ^ Suc k = (r * 10) * 10 ^ k" by simp
    also have "\<dots> = (?d * q + ?m) * 10 ^ k" by (simp only: split [symmetric])
    also have "\<dots> = ?d * q * 10 ^ k + ?m * 10 ^ k" by (rule distrib_right)
    finally have "q dvd ?d * q * 10 ^ k + ?m * 10 ^ k" using Suc.prems(3) by simp
    moreover have "q dvd ?d * q * 10 ^ k" by simp
    ultimately have "q dvd ?m * 10 ^ k" using dvd_add_right_iff by blast
    from Suc.IH [OF m this]
    have ih: "(of_int (digits_val ?fs) :: rat) = of_int ?m / of_int q * 10 ^ length ?fs"
      by (simp add: field_simps)
    have dm: "(of_int (r * 10) :: rat) = of_int ?d * of_int q + of_int ?m"
      by (metis of_int_add of_int_mult div_mult_mod_eq)
    have q0: "(of_int q :: rat) \<noteq> 0" using assms by simp
    have "(of_int (digits_val (digit_char ?d # ?fs)) / 10 ^ length (digit_char ?d # ?fs) :: rat)
        = (of_int ?d * 10 ^ length ?fs + of_int ?m / of_int q * 10 ^ length ?fs) / (10 * 10 ^ length ?fs)"
      by (simp add: digits_val_Cons digit_char_digit(2) [OF d] ih)
    also have "\<dots> = (of_int ?d + of_int ?m / of_int q) / 10"
      by (simp add: field_simps)
    also have "\<dots> = (of_int ?d * of_int q + of_int ?m) / of_int q / 10"
      using q0 by (simp add: field_simps)
    also have "\<dots> = of_int (r * 10) / of_int q / 10" by (simp only: dm)
    also have "\<dots> = of_int r / of_int q" by simp
    finally show ?thesis using False by simp
  qed
qed

lemma coprime_5_nat:
  assumes "\<not> 5 dvd (n::nat)"
  shows "coprime n 5"
proof (rule coprimeI)
  fix d :: nat
  assume d: "d dvd n" "d dvd 5"
  then have "d \<le> 5" by (intro dvd_imp_le) simp_all
  then consider "d = 0" | "d = 1" | "d = 2" | "d = 3" | "d = 4" | "d = 5" by linarith
  then show "is_unit d"
  proof cases
    case 6
    with d(1) assms show ?thesis by simp
  qed (use d(2) in simp_all)
qed

lemma factor_of_pow10:
  assumes "1 < (n::nat)" "n dvd 10 ^ k"
  shows "2 dvd n \<or> 5 dvd n"
proof (rule ccontr)
  assume "\<not> (2 dvd n \<or> 5 dvd n)"
  then have "coprime n 2" "coprime n 5"
    by (simp_all add: coprime_5_nat coprime_right_2_iff_odd)
  then have "coprime n (2 * 5)" by (simp only: coprime_mult_right_iff)
  then have "coprime n (10 ^ k)" by simp
  with assms(2) have "n dvd 1" by (metis coprime_absorb_left coprime_commute is_unit_gcd dvd_refl gcd_unique_nat coprime_imp_gcd_eq_1 gcd_nat.absorb_iff1)
  with assms(1) show False by simp
qed

lemma dvd_pow10_nat: "0 < n \<Longrightarrow> n dvd 10 ^ k \<Longrightarrow> n dvd (10::nat) ^ n"
proof (induction n rule: less_induct)
  case (less n)
  show ?case
  proof (cases "n = 1")
    case True
    then show ?thesis by simp
  next
    case False
    with less.prems(1) have "1 < n" by simp
    from factor_of_pow10 [OF this less.prems(2)]
    obtain p where p: "p = 2 \<or> p = 5" "p dvd n" by blast
    then obtain m where m: "n = p * m" by (auto simp add: dvd_def)
    have p2: "2 \<le> p" and p10: "p dvd 10" using p(1) by auto
    have m0: "0 < m" using less.prems(1) m by (cases m) simp_all
    have mn: "m < n" using m m0 p2 by simp
    have "m dvd 10 ^ k" using less.prems(2) m by (metis dvd_mult_right)
    from less.IH [OF mn m0 this] have ih: "m dvd 10 ^ m" .
    from p10 ih have "p * m dvd 10 * 10 ^ m" by (rule mult_dvd_mono)
    then have "n dvd 10 ^ Suc m" by (simp add: m)
    moreover have "Suc m \<le> n" using mn by simp
    ultimately show ?thesis by (meson dvd_trans le_imp_power_dvd)
  qed
qed

lemma dvd_pow10_int:
  assumes "0 < q" "q dvd 10 ^ k"
  shows "q dvd (10::int) ^ nat q"
proof -
  have "int (nat q) dvd int (10 ^ k)" using assms by simp
  then have "nat q dvd 10 ^ k" by (simp only: int_dvd_int_iff)
  with assms(1) have "nat q dvd 10 ^ nat q" by (intro dvd_pow10_nat [where k = k]) simp_all
  then have "int (nat q) dvd int (10 ^ nat q)" by (simp only: int_dvd_int_iff)
  then show ?thesis using assms(1) by simp
qed

lemma decimal_denominator: "decimal x \<Longrightarrow> quotient_of x = (p, q) \<Longrightarrow> q dvd 10 ^ nat q"
  by (simp add: decimal_def)

lemma decimalI:
  assumes "x = of_int n / 10 ^ k"
  shows "decimal x"
proof -
  obtain p q where pq: "quotient_of x = (p, q)" by (cases "quotient_of x")
  have q: "0 < q" using pq by (rule quotient_of_denom_pos)
  have c: "coprime p q" using pq by (rule quotient_of_coprime)
  have "x = of_int p / of_int q" using pq by (rule quotient_of_div)
  with assms have "(of_int p :: rat) * 10 ^ k = of_int n * of_int q"
    using q by (simp add: field_simps)
  then have "(of_int (p * 10 ^ k) :: rat) = of_int (n * q)" by simp
  then have "p * 10 ^ k = n * q" by (simp only: of_int_eq_iff)
  then have "q dvd p * 10 ^ k" by simp
  with c have "q dvd 10 ^ k" by (simp add: coprime_commute coprime_dvd_mult_right_iff)
  with q have "q dvd 10 ^ nat q" by (rule dvd_pow10_int)
  then show ?thesis by (simp add: decimal_def pq)
qed

lemma decimal_iff: "decimal x \<longleftrightarrow> (\<exists>n k. x = of_int n / 10 ^ k)"
proof
  assume d: "decimal x"
  obtain p q where pq: "quotient_of x = (p, q)" by (cases "quotient_of x")
  have q: "0 < q" using pq by (rule quotient_of_denom_pos)
  have x: "x = of_int p / of_int q" using pq by (rule quotient_of_div)
  from decimal_denominator [OF d pq] obtain c where c: "10 ^ nat q = q * c"
    by (auto simp add: dvd_def)
  then have c0: "c \<noteq> 0" by (cases "c = 0") simp_all
  from c have "(10 :: rat) ^ nat q = of_int q * of_int c"
    by (metis of_int_mult of_int_numeral of_int_power)
  with q c0 have "x = of_int (p * c) / 10 ^ nat q" by (simp add: x)
  then show "\<exists>n k. x = of_int n / 10 ^ k" by blast
next
  assume "\<exists>n k. x = of_int n / 10 ^ k"
  then show "decimal x" using decimalI by blast
qed

lemma decimal_of_int: "decimal (of_int i)"
  by (simp add: decimal_def)

lemma is_digit_not_sign:
  "is_digit c \<Longrightarrow> c \<noteq> CHR ''-'' \<and> c \<noteq> CHR ''.'' \<and> c \<noteq> CHR ''+''"
  by (auto simp add: is_digit_def)

lemma not_digit_dot: "\<not> is_digit CHR ''.''"
  by (simp add: is_digit_def)

lemma takeWhile_all: "list_all P xs \<Longrightarrow> takeWhile P xs = xs"
  by (simp add: list_all_iff)

lemma dropWhile_all: "list_all P xs \<Longrightarrow> dropWhile P xs = []"
  by (simp add: list_all_iff)

lemma takeWhile_stop: "list_all P xs \<Longrightarrow> \<not> P y \<Longrightarrow> takeWhile P (xs @ y # ys) = xs"
  by (simp add: list_all_iff takeWhile_append2)

lemma dropWhile_stop: "list_all P xs \<Longrightarrow> \<not> P y \<Longrightarrow> dropWhile P (xs @ y # ys) = y # ys"
  by (simp add: list_all_iff dropWhile_append2)

lemma pow10_0: "pow10 0 = 1"
  by (simp add: pow10_def)

lemma split_sign_digit: "is_digit c \<Longrightarrow> split_sign (c # cs) = (False, c # cs)"
  using is_digit_not_sign [of c] by (simp add: split_sign_def)

lemma split_sign_minus: "split_sign (CHR ''-'' # w) = (True, w)"
  by (simp add: split_sign_def)

lemma parse_fraction_digits:
  "list_all is_digit fs \<Longrightarrow> fs \<noteq> [] \<Longrightarrow> parse_fraction (CHR ''.'' # fs) = (fs, [], True)"
  by (simp add: parse_fraction_def takeWhile_all dropWhile_all)

lemma parse_fraction_none: "parse_fraction [] = ([], [], True)"
  by (simp add: parse_fraction_def)

lemma parse_exponent_none: "parse_exponent [] = (0, [], True)"
  by (simp add: parse_exponent_def)

lemma parse_unsigned_text:
  assumes "list_all is_digit ds" "ds \<noteq> []" "length ds = 1 \<or> hd ds \<noteq> CHR ''0''"
    and "list_all is_digit fs"
  shows "takeWhile is_digit (ds @ (if fs = [] then [] else CHR ''.'' # fs)) = ds"
    and "parse_fraction (dropWhile is_digit (ds @ (if fs = [] then [] else CHR ''.'' # fs)))
          = (fs, [], True)"
  using assms not_digit_dot
  by (simp_all add: takeWhile_stop dropWhile_stop takeWhile_all dropWhile_all
      parse_fraction_digits parse_fraction_none)

lemma parse_number_unsigned:
  assumes "list_all is_digit ds" "ds \<noteq> []" "length ds = 1 \<or> hd ds \<noteq> CHR ''0''"
    and "list_all is_digit fs"
  shows "parse_number (ds @ (if fs = [] then [] else CHR ''.'' # fs))
     = Some (of_int (digits_val ds) + of_int (digits_val fs) / 10 ^ length fs)"
proof -
  let ?w = "ds @ (if fs = [] then [] else CHR ''.'' # fs)"
  from assms(2) obtain c cs where ds: "ds = c # cs" by (cases ds) simp_all
  with assms(1) have "is_digit c" by simp
  then have "split_sign (c # cs @ (if fs = [] then [] else CHR ''.'' # fs))
      = (False, c # cs @ (if fs = [] then [] else CHR ''.'' # fs))"
    by (rule split_sign_digit)
  then have s: "split_sign ?w = (False, ?w)" by (simp add: ds)
  show ?thesis
    unfolding parse_number_def s
    using assms(2,3)
    by (simp only: Let_def prod.case parse_unsigned_text [OF assms] parse_exponent_none)
       (simp add: pow10_0)
qed

lemma parse_number_negative:
  assumes "list_all is_digit ds" "ds \<noteq> []" "length ds = 1 \<or> hd ds \<noteq> CHR ''0''"
    and "list_all is_digit fs"
  shows "parse_number (CHR ''-'' # ds @ (if fs = [] then [] else CHR ''.'' # fs))
     = Some (- (of_int (digits_val ds) + of_int (digits_val fs) / 10 ^ length fs))"
  unfolding parse_number_def split_sign_minus
  using assms(2,3)
  by (simp only: Let_def prod.case parse_unsigned_text [OF assms] parse_exponent_none)
     (simp add: pow10_0)

lemma show_frac_empty_iff: "0 < k \<Longrightarrow> (show_frac k r q = []) = (r = 0)"
  by (cases k) simp_all

lemma parse_show_number:
  assumes "decimal x"
  shows "parse_number (show_number x) = Some x"
proof -
  obtain p q where pq: "quotient_of x = (p, q)" by (cases "quotient_of x")
  have q: "0 < q" using pq by (rule quotient_of_denom_pos)
  have x: "x = of_int p / of_int q" using pq by (rule quotient_of_div)
  let ?a = "\<bar>p\<bar>"
  let ?ds = "show_nat (?a div q)" and ?r = "?a mod q"
  let ?fs = "show_frac (nat q) ?r q"
  have r: "0 \<le> ?r" "?r < q" using q by simp_all
  have ip: "0 \<le> ?a div q" using q by (simp add: pos_imp_zdiv_nonneg_iff)
  note n = show_nat_props [OF ip]
  have fd: "list_all is_digit ?fs" using r by (rule show_frac_digits)
  have "q dvd 10 ^ nat q" using assms pq by (rule decimal_denominator)
  then have "q dvd ?r * 10 ^ nat q" by simp
  from show_frac_value [OF q r this]
  have fv: "(of_int (digits_val ?fs) / 10 ^ length ?fs :: rat) = of_int ?r / of_int q" .
  have fe: "(?fs = []) = (?r = 0)" using q by (intro show_frac_empty_iff) simp
  have shape: "show_number x = (if p < 0 then ''-'' else []) @ ?ds @ (if ?fs = [] then [] else CHR ''.'' # ?fs)"
    by (simp add: show_number_def pq Let_def fe)
  have "(of_int ?a :: rat) = of_int (?a div q) * of_int q + of_int ?r"
    by (metis of_int_add of_int_mult div_mult_mod_eq)
  then have v: "(of_int (?a div q) + of_int ?r / of_int q :: rat) = of_int ?a / of_int q"
    using q by (simp add: field_simps)
  show ?thesis
  proof (cases "p < 0")
    case True
    have "parse_number (show_number x) = Some (- (of_int (digits_val ?ds) + of_int (digits_val ?fs) / 10 ^ length ?fs))"
      using parse_number_negative [of ?ds ?fs] n fd True by (simp add: shape)
    also have "\<dots> = Some (- (of_int ?a / of_int q))" using n by (simp add: fv v)
    also have "\<dots> = Some x" using True by (simp add: x)
    finally show ?thesis .
  next
    case False
    have "parse_number (show_number x) = Some (of_int (digits_val ?ds) + of_int (digits_val ?fs) / 10 ^ length ?fs)"
      using parse_number_unsigned [of ?ds ?fs] n fd False by (simp add: shape)
    also have "\<dots> = Some (of_int ?a / of_int q)" using n by (simp add: fv v)
    also have "\<dots> = Some x" using False by (simp add: x)
    finally show ?thesis .
  qed
qed

subsection \<open>Strings and words\<close>

lemma of_char_int_bounds: "0 \<le> (of_char c :: int)" "(of_char c :: int) < 256"
proof -
  have e: "(of_char c :: int) = int (of_char c)" by (simp add: of_nat_of_char)
  show "0 \<le> (of_char c :: int)" by (simp add: e)
  show "(of_char c :: int) < 256" using nat_of_char_less_256 [of c] by (simp add: e)
qed

lemma digit_char_hex:
  assumes "0 \<le> n" "n < 16"
  shows "is_hex (digit_char n)" "hex_val (digit_char n) = n"
  using assms of_char_digit_char [OF assms]
  by (auto simp add: is_hex_def hex_val_def is_digit_def)

lemma char_of_of_char_int: "char_of (of_char c :: int) = c"
  by simp

lemma unicode_escape_value:
  assumes "(of_char c :: int) < 32"
  shows "encode_unit (hex_digits_val [CHR ''0'', CHR ''0'', digit_char (of_char c div 16),
           digit_char (of_char c mod 16)]) = [c]"
proof -
  let ?n = "of_char c :: int"
  have n: "0 \<le> ?n" by (rule of_char_int_bounds)
  have hi: "0 \<le> ?n div 16" "?n div 16 < 16" using assms n by simp_all
  have lo: "0 \<le> ?n mod 16" "?n mod 16 < 16" by simp_all
  have z: "hex_val CHR ''0'' = 0" by (simp add: hex_val_def is_digit_def)
  have "hex_digits_val [CHR ''0'', CHR ''0'', digit_char (?n div 16), digit_char (?n mod 16)]
      = 16 * (?n div 16) + ?n mod 16"
    by (simp add: hex_digits_val_def z digit_char_hex(2) [OF hi] digit_char_hex(2) [OF lo])
  also have "\<dots> = ?n" by simp
  finally show ?thesis using assms by (simp add: encode_unit_def)
qed

lemma lex_quote_char:
  "lex_from ts (InString acc) (quote_char c @ cs) = lex_from ts (InString (c # acc)) cs"
proof (cases "c = CHR 0x22 \<or> c = CHR 0x5C \<or> c = CHR 0x08 \<or> c = CHR 0x0C \<or> c = CHR 0x0A
    \<or> c = CHR 0x0D \<or> c = CHR 0x09")
  case True
  then show ?thesis by (auto simp add: quote_char_def unescape_def)
next
  case False
  show ?thesis
  proof (cases "(of_char c :: int) < 32")
    case True
    let ?n = "of_char c :: int"
    have hi: "0 \<le> ?n div 16" "?n div 16 < 16"
      using True of_char_int_bounds(1) [of c] by simp_all
    have lo: "0 \<le> ?n mod 16" "?n mod 16 < 16" by simp_all
    have h0: "is_hex CHR ''0''" by (simp add: is_hex_def is_digit_def)
    show ?thesis
      using False True h0 digit_char_hex(1) [OF hi] digit_char_hex(1) [OF lo]
        unicode_escape_value [OF True]
      by (simp add: quote_char_def unescape_def)
  next
    case ge: False
    with False show ?thesis by (simp add: quote_char_def)
  qed
qed

lemma lex_string_body:
  "lex_from ts (InString acc) (concat (map quote_char s) @ CHR 0x22 # rest)
     = lex_from (TString (rev acc @ s) # ts) Idle rest"
proof (induction s arbitrary: acc)
  case Nil
  show ?case by simp
next
  case (Cons c s)
  show ?case by (simp add: lex_quote_char Cons.IH)
qed

lemma lex_quote:
  "lex_from ts Idle (quote s @ rest) = lex_from (TString s # ts) Idle rest"
proof -
  have "lex_from ts Idle (quote s @ rest)
      = lex_from ts (InString []) (concat (map quote_char s) @ CHR 0x22 # rest)"
    by (simp add: quote_def lex_idle_def is_ws_def)
  then show ?thesis by (simp add: lex_string_body)
qed


lemma word_char_code:
  assumes "is_word_char c"
  shows "(of_char c :: int) \<in> {43, 45, 46} \<or> (48 \<le> (of_char c :: int) \<and> (of_char c :: int) \<le> 122)"
  using assms by (auto simp add: is_word_char_def is_digit_def is_letter_def)

lemma word_char_not_delimiter:
  assumes "is_word_char c"
    and "(of_char d :: int) < 43 \<or> (of_char d :: int) = 44 \<or> (of_char d :: int) = 47
        \<or> 122 < (of_char d :: int)"
  shows "c \<noteq> d"
  using word_char_code [OF assms(1)] assms(2) by auto

lemma lex_idle_word:
  assumes "is_word_char c"
  shows "lex_idle ts c = Some (ts, InWord [c])"
proof -
  note d = word_char_not_delimiter [OF assms]
  have ws: "\<not> is_ws c"
    using d [of "CHR '' ''"] d [of "CHR 0x09"] d [of "CHR 0x0A"] d [of "CHR 0x0D"]
    by (auto simp add: is_ws_def)
  have "c \<noteq> CHR ''{''" "c \<noteq> CHR ''}''" "c \<noteq> CHR 0x22" "c \<noteq> CHR '',''"
    by (rule d, simp)+
  moreover have "c \<noteq> CHR ''[''" "c \<noteq> CHR '']''" "c \<noteq> CHR '':''"
    using assms by (auto simp add: is_word_char_def is_digit_def is_letter_def)
  ultimately show ?thesis using ws assms by (simp add: lex_idle_def)
qed

lemma lex_word_chars:
  "list_all is_word_char cs \<Longrightarrow>
     lex_from ts (InWord a) (cs @ rest) = lex_from ts (InWord (rev cs @ a)) rest"
  by (induction cs arbitrary: a) simp_all

lemma lex_word_end:
  assumes "word_token (rev a) = Some t" "word_end rest"
  shows "lex_from ts (InWord a) rest = lex_from (t # ts) Idle rest"
proof (cases rest)
  case Nil
  then show ?thesis using assms(1) by simp
next
  case (Cons c cs)
  with assms(2) have "\<not> is_word_char c" by (simp add: word_end_def)
  then show ?thesis using assms(1) Cons by simp
qed

lemma lex_word:
  assumes "list_all is_word_char w" "w \<noteq> []" "word_token w = Some t" "word_end rest"
  shows "lex_from ts Idle (w @ rest) = lex_from (t # ts) Idle rest"
proof -
  from assms(2) obtain c cs where w: "w = c # cs" by (cases w) simp_all
  with assms(1) have c: "is_word_char c" and cs: "list_all is_word_char cs" by simp_all
  have "lex_from ts Idle (w @ rest) = lex_from ts (InWord [c]) (cs @ rest)"
    by (simp add: w lex_idle_word [OF c])
  also have "\<dots> = lex_from ts (InWord (rev cs @ [c])) rest"
    using cs by (rule lex_word_chars)
  also have "\<dots> = lex_from (t # ts) Idle rest"
    using assms(3,4) by (intro lex_word_end) (simp_all add: w)
  finally show ?thesis .
qed

lemma is_digit_word: "is_digit c \<Longrightarrow> is_word_char c"
  by (simp add: is_word_char_def)

lemma digits_word: "list_all is_digit ds \<Longrightarrow> list_all is_word_char ds"
  by (simp add: list_all_iff is_digit_word)

lemma show_number_shape:
  obtains sg ds fs where "show_number x = sg @ ds @ (if fs = [] then [] else CHR ''.'' # fs)"
    "sg = [] \<or> sg = ''-''" "list_all is_digit ds" "ds \<noteq> []" "list_all is_digit fs"
proof -
  obtain p q where pq: "quotient_of x = (p, q)" by (cases "quotient_of x")
  have q: "0 < q" using pq by (rule quotient_of_denom_pos)
  let ?a = "\<bar>p\<bar>"
  let ?ds = "show_nat (?a div q)" and ?r = "?a mod q"
  let ?fs = "show_frac (nat q) ?r q"
  have r: "0 \<le> ?r" "?r < q" using q by simp_all
  have ip: "0 \<le> ?a div q" using q by (simp add: pos_imp_zdiv_nonneg_iff)
  note n = show_nat_props [OF ip]
  have fd: "list_all is_digit ?fs" using r by (rule show_frac_digits)
  have fe: "(?fs = []) = (?r = 0)" using q by (intro show_frac_empty_iff) simp
  have "show_number x = (if p < 0 then ''-'' else []) @ ?ds @ (if ?fs = [] then [] else CHR ''.'' # ?fs)"
    by (simp add: show_number_def pq Let_def fe)
  then show ?thesis using n fd that [of "if p < 0 then ''-'' else []" ?ds ?fs] by simp
qed

lemma show_number_word:
  "list_all is_word_char (show_number x)" "show_number x \<noteq> []"
  "show_number x \<noteq> ''true''" "show_number x \<noteq> ''false''" "show_number x \<noteq> ''null''"
proof -
  obtain sg ds fs where s: "show_number x = sg @ ds @ (if fs = [] then [] else CHR ''.'' # fs)"
    "sg = [] \<or> sg = ''-''" "list_all is_digit ds" "ds \<noteq> []" "list_all is_digit fs"
    by (rule show_number_shape)
  from s(4) obtain c cs where ds: "ds = c # cs" by (cases ds) simp_all
  with s(3) have c: "is_digit c" by simp
  then have nl: "c \<noteq> CHR ''t''" "c \<noteq> CHR ''f''" "c \<noteq> CHR ''n''"
    by (auto simp add: is_digit_def)
  have w: "is_word_char CHR ''-''" "is_word_char CHR ''.''" by (simp_all add: is_word_char_def)
  show "list_all is_word_char (show_number x)"
    using s(2) digits_word [OF s(3)] digits_word [OF s(5)] w by (auto simp add: s(1))
  show "show_number x \<noteq> []" using s(4) by (simp add: s(1))
  show "show_number x \<noteq> ''true''" "show_number x \<noteq> ''false''" "show_number x \<noteq> ''null''"
    using s(2) nl by (auto simp add: s(1) ds)
qed

lemma lex_number:
  assumes "decimal x" "word_end rest"
  shows "lex_from ts Idle (show_number x @ rest) = lex_from (TNumber x # ts) Idle rest"
proof -
  have "word_token (show_number x) = Some (TNumber x)"
    using show_number_word(3-5) [of x] parse_show_number [OF assms(1)]
    by (simp add: word_token_def)
  with show_number_word(1,2) [of x] assms(2) show ?thesis
    by (intro lex_word) simp_all
qed

subsection \<open>The scanner on a printed value\<close>

lemma word_end_delims [simp]:
  "word_end []" "word_end (CHR '','' # cs)" "word_end (CHR '']'' # cs)" "word_end (CHR ''}'' # cs)"
  by (simp_all add: word_end_def is_word_char_def is_digit_def is_letter_def)

lemma lex_idle_punct [simp]:
  "lex_idle ts CHR ''['' = Some (LBracket # ts, Idle)"
  "lex_idle ts CHR '']'' = Some (RBracket # ts, Idle)"
  "lex_idle ts CHR ''{'' = Some (LBrace # ts, Idle)"
  "lex_idle ts CHR ''}'' = Some (RBrace # ts, Idle)"
  "lex_idle ts CHR '':'' = Some (Colon # ts, Idle)"
  "lex_idle ts CHR '','' = Some (Comma # ts, Idle)"
  by (simp_all add: lex_idle_def is_ws_def)

lemma lex_literals:
  assumes "word_end rest"
  shows "lex_from ts Idle (''null'' @ rest) = lex_from (TNull # ts) Idle rest"
    and "lex_from ts Idle (''true'' @ rest) = lex_from (TTrue # ts) Idle rest"
    and "lex_from ts Idle (''false'' @ rest) = lex_from (TFalse # ts) Idle rest"
  using assms
  by (intro lex_word; simp add: word_token_def is_word_char_def is_letter_def)+

text \<open>Lexing a comma-separated sequence of items, each of which lexes to its tokens.\<close>

lemma lex_join:
  assumes "\<And>x ts rest. x \<in> set xs \<Longrightarrow> word_end rest \<Longrightarrow>
      lex_from ts Idle (f x @ rest) = lex_from (rev (g x) @ ts) Idle rest"
    and "word_end rest" "rest \<noteq> []"
  shows "lex_from ts Idle (join '','' (map f xs) @ rest)
     = lex_from (rev (join [Comma] (map g xs)) @ ts) Idle rest"
  using assms(1)
proof (induction xs arbitrary: ts)
  case Nil
  show ?case by simp
next
  case (Cons x xs)
  show ?case
  proof (cases xs)
    case Nil
    then show ?thesis using Cons.prems [of x] assms(2) by simp
  next
    case (Cons y ys)
    have "lex_from ts Idle (join '','' (map f (x # y # ys)) @ rest)
        = lex_from ts Idle (f x @ CHR '','' # join '','' (map f (y # ys)) @ rest)"
      by simp
    also have "\<dots> = lex_from (rev (g x) @ ts) Idle (CHR '','' # join '','' (map f (y # ys)) @ rest)"
      by (rule Cons.prems) simp_all
    also have "\<dots> = lex_from (Comma # rev (g x) @ ts) Idle (join '','' (map f (y # ys)) @ rest)"
      by simp
    also have "\<dots> = lex_from (rev (join [Comma] (map g (y # ys))) @ Comma # rev (g x) @ ts) Idle rest"
      using Cons.IH [of "Comma # rev (g x) @ ts"] Cons.prems Cons by simp
    finally show ?thesis using Cons by simp
  qed
qed

lemma lex_JSON_stringify:
  "decimal_json v \<Longrightarrow> word_end rest \<Longrightarrow>
     lex_from ts Idle (JSON_stringify v @ rest) = lex_from (rev (tokens_of v) @ ts) Idle rest"
proof (induction v arbitrary: ts rest)
  case JNull
  then show ?case using lex_literals(1) [of rest ts] by simp
next
  case (JBool b)
  then show ?case using lex_literals(2,3) [of rest ts] by simp
next
  case (JNumber x)
  then show ?case by (simp add: lex_number)
next
  case (JString s)
  show ?case by (simp add: lex_quote)
next
  case (JArray vs)
  have "lex_from (LBracket # ts) Idle (join '','' (map JSON_stringify vs) @ CHR '']'' # rest)
      = lex_from (rev (join [Comma] (map tokens_of vs)) @ LBracket # ts) Idle (CHR '']'' # rest)"
    using JArray by (intro lex_join) (simp_all add: list_all_iff)
  then show ?case by simp
next
  case (JObject ms)
  have item: "lex_from ts' Idle ((\<lambda>(k, v). quote k @ '':'' @ JSON_stringify v) m @ rest')
      = lex_from (rev ((\<lambda>(k, v). TString k # Colon # tokens_of v) m) @ ts') Idle rest'"
    if "m \<in> set ms" "word_end rest'" for m ts' rest'
  proof -
    obtain k v where m: "m = (k, v)" by (cases m)
    have d: "decimal_json v" using JObject.prems(1) that(1) m by (auto simp add: list_all_iff)
    have "v \<in> Basic_BNFs.snds m" by (simp add: m)
    from JObject.IH [OF that(1) this d that(2)]
    show ?thesis by (simp add: m lex_quote)
  qed
  have "lex_from (LBrace # ts) Idle
          (join '','' (map (\<lambda>(k, v). quote k @ '':'' @ JSON_stringify v) ms) @ CHR ''}'' # rest)
      = lex_from (rev (join [Comma] (map (\<lambda>(k, v). TString k # Colon # tokens_of v) ms))
                   @ LBrace # ts) Idle (CHR ''}'' # rest)"
    by (intro lex_join item) simp_all
  then show ?case by simp
qed

subsection \<open>The stack machine on the tokens of a value\<close>

lemma parse_from_step:
  "parse_token fs p t = Some st \<Longrightarrow> parse_from fs p (t # ts) = resume st ts"
  by (cases st) (simp add: resume_def)

text \<open>The elements of an array, after the opening bracket or after a comma.\<close>

lemma parse_elements:
  assumes "\<And>v fs p rest. v \<in> set vs \<Longrightarrow> value_phase p \<Longrightarrow>
      parse_from fs p (tokens_of v @ rest) = resume (deliver fs v) rest"
    and "vs \<noteq> []" "value_phase p"
  shows "parse_from (FArray acc # fs) p (join [Comma] (map tokens_of vs) @ RBracket # rest)
     = resume (deliver fs (JArray (rev acc @ vs))) rest"
  using assms
proof (induction vs arbitrary: acc p)
  case Nil
  then show ?case by simp
next
  case (Cons v vs)
  have v: "parse_from (FArray acc # fs) p (tokens_of v @ ts)
      = parse_from (FArray (v # acc) # fs) AfterValue ts" for ts
    using Cons.prems(1) [of v p "FArray acc # fs" ts] Cons.prems(3) by (simp add: resume_def)
  show ?case
  proof (cases vs)
    case Nil
    have "parse_from (FArray (v # acc) # fs) AfterValue (RBracket # rest)
        = resume (deliver fs (JArray (rev (v # acc)))) rest"
      by (intro parse_from_step) simp
    then show ?thesis using Nil v by simp
  next
    case (Cons w ws)
    have "parse_from (FArray acc # fs) p (join [Comma] (map tokens_of (v # w # ws)) @ RBracket # rest)
        = parse_from (FArray (v # acc) # fs) AfterValue
            (Comma # join [Comma] (map tokens_of (w # ws)) @ RBracket # rest)"
      using v by simp
    also have "\<dots> = parse_from (FArray (v # acc) # fs) Value
            (join [Comma] (map tokens_of (w # ws)) @ RBracket # rest)"
      by simp
    also have "\<dots> = resume (deliver fs (JArray (rev (v # acc) @ w # ws))) rest"
      using Cons.IH [of Value "v # acc"] Cons.prems(1) Cons by (simp add: value_phase_def)
    finally show ?thesis using Cons by simp
  qed
qed

text \<open>The members of an object, after the opening brace or after a comma.\<close>

lemma parse_members:
  assumes "\<And>k v fs p rest. (k, v) \<in> set ms \<Longrightarrow> value_phase p \<Longrightarrow>
      parse_from fs p (tokens_of v @ rest) = resume (deliver fs v) rest"
    and "ms \<noteq> []" "p = KeyOrEnd \<or> p = Key"
  shows "parse_from (FObject acc k0 # fs) p
           (join [Comma] (map (\<lambda>(k, v). TString k # Colon # tokens_of v) ms) @ RBrace # rest)
     = resume (deliver fs (JObject (rev acc @ ms))) rest"
  using assms
proof (induction ms arbitrary: acc p k0)
  case Nil
  then show ?case by simp
next
  case (Cons m ms)
  note IH = Cons.IH and prems = Cons.prems
  obtain k v where m: "m = (k, v)" by (cases m)
  have v: "parse_from (FObject acc k0 # fs) p (TString k # Colon # tokens_of v @ ts)
      = parse_from (FObject ((k, v) # acc) k # fs) AfterValue ts" for ts
  proof -
    have "parse_from (FObject acc k0 # fs) p (TString k # Colon # tokens_of v @ ts)
        = parse_from (FObject acc k # fs) Value (tokens_of v @ ts)"
      using Cons.prems(3) by auto
    also have "\<dots> = resume (deliver (FObject acc k # fs) v) ts"
      by (rule Cons.prems(1) [of k v]) (simp_all add: m value_phase_def)
    finally show ?thesis by (simp add: resume_def)
  qed
  show ?case
  proof (cases ms)
    case Nil
    have "parse_from (FObject ((k, v) # acc) k # fs) AfterValue (RBrace # rest)
        = resume (deliver fs (JObject (rev ((k, v) # acc)))) rest"
      by (intro parse_from_step) simp
    then show ?thesis using Nil v by (simp add: m)
  next
    case (Cons m' ms')
    have "parse_from (FObject acc k0 # fs) p
            (join [Comma] (map (\<lambda>(k, v). TString k # Colon # tokens_of v) (m # m' # ms')) @ RBrace # rest)
        = parse_from (FObject ((k, v) # acc) k # fs) AfterValue
            (Comma # join [Comma] (map (\<lambda>(k, v). TString k # Colon # tokens_of v) (m' # ms')) @ RBrace # rest)"
      using v by (simp add: m)
    also have "\<dots> = parse_from (FObject ((k, v) # acc) k # fs) Key
            (join [Comma] (map (\<lambda>(k, v). TString k # Colon # tokens_of v) (m' # ms')) @ RBrace # rest)"
      by simp
    also have "\<dots> = resume (deliver fs (JObject (rev ((k, v) # acc) @ m' # ms'))) rest"
      unfolding Cons [symmetric]
    proof (rule IH)
      show "parse_from fs' p' (tokens_of v' @ rest') = resume (deliver fs' v') rest'"
        if "(k', v') \<in> set ms" "value_phase p'" for k' v' fs' p' rest'
        using prems(1) [of k' v' p' fs' rest'] that by simp
      show "ms \<noteq> []" using Cons by simp
      show "Key = KeyOrEnd \<or> Key = Key" by simp
    qed
    finally show ?thesis using Cons by (simp add: m)
  qed
qed

lemma parse_tokens_of:
  "value_phase p \<Longrightarrow> parse_from fs p (tokens_of v @ rest) = resume (deliver fs v) rest"
proof (induction v arbitrary: fs p rest)
  case JNull
  then show ?case by (auto simp add: value_phase_def resume_def split: prod.splits)
next
  case (JBool b)
  then show ?case by (auto simp add: value_phase_def resume_def split: prod.splits)
next
  case (JNumber x)
  then show ?case by (auto simp add: value_phase_def resume_def split: prod.splits)
next
  case (JString s)
  then show ?case by (auto simp add: value_phase_def resume_def split: prod.splits)
next
  case (JArray vs)
  have open_bracket: "parse_from fs p (LBracket # ts) = parse_from (FArray [] # fs) ValueOrEnd ts" for ts
    using JArray.prems by (auto simp add: value_phase_def)
  show ?case
  proof (cases "vs = []")
    case True
    have "parse_from (FArray [] # fs) ValueOrEnd (RBracket # rest) = resume (deliver fs (JArray (rev []))) rest"
      by (intro parse_from_step) simp
    then show ?thesis using True open_bracket by simp
  next
    case False
    have "parse_from (FArray [] # fs) ValueOrEnd (join [Comma] (map tokens_of vs) @ RBracket # rest)
        = resume (deliver fs (JArray (rev [] @ vs))) rest"
      using JArray.IH False by (intro parse_elements) (simp_all add: value_phase_def)
    then show ?thesis using open_bracket by simp
  qed
next
  case (JObject ms)
  have open_brace: "parse_from fs p (LBrace # ts) = parse_from (FObject [] [] # fs) KeyOrEnd ts" for ts
    using JObject.prems by (auto simp add: value_phase_def)
  show ?case
  proof (cases "ms = []")
    case True
    have "parse_from (FObject [] [] # fs) KeyOrEnd (RBrace # rest) = resume (deliver fs (JObject (rev []))) rest"
      by (intro parse_from_step) simp
    then show ?thesis using True open_brace by simp
  next
    case False
    have ih: "parse_from fs' p' (tokens_of v @ rest') = resume (deliver fs' v) rest'"
      if "(k, v) \<in> set ms" "value_phase p'" for k v fs' p' rest'
      using JObject.IH [of "(k, v)" v] that by simp
    have "parse_from (FObject [] [] # fs) KeyOrEnd
            (join [Comma] (map (\<lambda>(k, v). TString k # Colon # tokens_of v) ms) @ RBrace # rest)
        = resume (deliver fs (JObject (rev [] @ ms))) rest"
      using False by (intro parse_members ih) simp_all
    then show ?thesis using open_brace by simp
  qed
qed

lemma JSON_round_trip:
  assumes "decimal_json v"
  shows "JSON_parse (JSON_stringify v) = Some v"
proof -
  have "lex_from [] Idle (JSON_stringify v @ []) = lex_from (rev (tokens_of v) @ []) Idle []"
    using assms by (intro lex_JSON_stringify) simp_all
  then have l: "lex_from [] Idle (JSON_stringify v) = Some (tokens_of v)" by simp
  have "parse_from [] Value (tokens_of v @ []) = resume (deliver [] v) []"
    by (intro parse_tokens_of) (simp add: value_phase_def)
  then have "parse_from [] Value (tokens_of v) = Some v" by (simp add: resume_def)
  with l show ?thesis by (simp add: JSON_parse_def)
qed


section \<open>Persistence\<close>

lemma JSON_parse_empty: "JSON_parse [] = None"
  by (simp add: JSON_parse_def)

lemma json_of_expense_inj: "json_of_expense e = json_of_expense e' \<Longrightarrow> e = e'"
  by (cases e, cases e') (simp add: json_of_expense_def)

text \<open>Equal JSON images mean equal ledgers: deep equality of records is equality here.\<close>

lemma json_of_state_inj: "json_of_state s = json_of_state s' \<Longrightarrow> s = s'"
proof -
  assume a: "json_of_state s = json_of_state s'"
  have "inj json_of_expense" by (rule injI) (rule json_of_expense_inj)
  with a have "expenses s = expenses s'"
    by (simp add: json_of_state_def inj_map_eq_map)
  with a show ?thesis by (cases s, cases s') (simp add: json_of_state_def)
qed

lemma or_else_number: "or_else (Some (JNumber x)) (JNumber 0) = JNumber x"
  by (simp add: or_else_def)

lemma or_else_array: "or_else (Some (JArray vs)) d = JArray vs"
  by (simp add: or_else_def)

lemma loadData_parsed:
  assumes "ls ''hostelFinanceData'' = Some t" "JSON_parse t = Some (json_of_state r)"
  shows "loadData ls st = Inr (json_of_state r)"
proof -
  have t: "t \<noteq> []" using assms(2) JSON_parse_empty by auto
  have g: "get_prop (json_of_state r) ''allowance'' = Some (JNumber (allowance r))"
    "get_prop (json_of_state r) ''goal'' = Some (JNumber (goal r))"
    "get_prop (json_of_state r) ''expenses'' = Some (JArray (map json_of_expense (expenses r)))"
    by (simp_all add: json_of_state_def)
  have n: "json_of_state r \<noteq> JNull" by (simp add: json_of_state_def)
  show ?thesis
    using assms t n by (simp add: loadData_def g or_else_number or_else_array) (simp add: json_of_state_def)
qed

lemma decimal_json_of_state: "decimal_ledger s \<Longrightarrow> decimal_json (json_of_state s)"
  by (simp add: decimal_ledger_def json_of_state_def json_of_expense_def decimal_of_int
      list_all_iff)

lemma loadData_saved:
  assumes "ls ''hostelFinanceData'' = Some (JSON_stringify (json_of_state r))" "decimal_ledger r"
  shows "loadData ls st = Inr (json_of_state r)"
  using assms(1) JSON_round_trip [OF decimal_json_of_state [OF assms(2)]]
  by (rule loadData_parsed)

text \<open>
  Claim C1, as the specification states it, fails: a stored text that is not JSON (here
  an object literal with unquoted keys) makes \<open>loadData\<close> leave with the
  \<^verbatim>\<open>SyntaxError\<close> of \<^verbatim>\<open>JSON.parse\<close>; the source has no handler for it.
\<close>

theorem loadData_unparsable_throws:
  "JSON_parse ''{allowance: 1000, goal: 500, expenses: []}'' = None
   \<and> loadData (storage_with ''{allowance: 1000, goal: 500, expenses: []}'')
        (json_of_state initial_state) = Inl SyntaxError"
  by code_simp

text \<open>
  Claim C1, amended. \<open>loadData\<close> leaves the state as it is (the zero default at start-up)
  when nothing or the empty string is stored under the key; it raises
  \<^verbatim>\<open>SyntaxError\<close>, assigning nothing, when the stored text is not empty and fails to
  parse as JSON; and it returns the saved record when the stored text parses to it, as
  does the text that \<open>saveData\<close> wrote for a ledger whose numbers are decimal.
\<close>

theorem loadData_outcomes:
  "(ls ''hostelFinanceData'' = None \<or> ls ''hostelFinanceData'' = Some [] \<longrightarrow> loadData ls st = Inr st)
   \<and> (ls ''hostelFinanceData'' = Some t \<and> t \<noteq> [] \<and> JSON_parse t = None
        \<longrightarrow> loadData ls st = Inl SyntaxError)
   \<and> (ls ''hostelFinanceData'' = Some t \<and> JSON_parse t = Some (json_of_state r)
        \<longrightarrow> loadData ls st = Inr (json_of_state r))
   \<and> (ls ''hostelFinanceData'' = Some (JSON_stringify (json_of_state r)) \<and> decimal_ledger r
        \<longrightarrow> loadData ls st = Inr (json_of_state r))"
  using loadData_saved [of ls r st] loadData_parsed [of ls t r st]
  by (auto simp add: loadData_def)

theorem loadData_outcomes_witness:
  "loadData Map.empty (json_of_state initial_state) = Inr (json_of_state initial_state)
   \<and> loadData (storage_with []) (json_of_state initial_state) = Inr (json_of_state initial_state)
   \<and> JSON_parse ''[1,'' = None
   \<and> loadData (storage_with ''[1,'') (json_of_state initial_state) = Inl SyntaxError
   \<and> decimal_ledger ledger_cafe
   \<and> JSON_parse (JSON_stringify (json_of_state ledger_cafe)) = Some (json_of_state ledger_cafe)
   \<and> loadData (storage_with (JSON_stringify (json_of_state ledger_cafe)))
        (json_of_state initial_state) = Inr (json_of_state ledger_cafe)"
proof -
  have p: "JSON_parse ''[1,'' = None" by code_simp
  have r: "decimal_ledger ledger_cafe" by code_simp
  have j: "JSON_parse (JSON_stringify (json_of_state ledger_cafe)) = Some (json_of_state ledger_cafe)"
    by code_simp
  have k: "storage_with u ''hostelFinanceData'' = Some u" for u
    by (simp add: storage_with_def)
  show ?thesis
    using p r j k
      loadData_outcomes [of Map.empty "json_of_state initial_state" "[]" ledger_cafe]
      loadData_outcomes [of "storage_with []" "json_of_state initial_state" "[]" ledger_cafe]
      loadData_outcomes [of "storage_with ''[1,''" "json_of_state initial_state" "''[1,''" ledger_cafe]
      loadData_outcomes [of "storage_with (JSON_stringify (json_of_state ledger_cafe))"
        "json_of_state initial_state" "JSON_stringify (json_of_state ledger_cafe)" ledger_cafe]
    by simp
qed

text \<open>
  Claim C8. For every ledger whose numbers are decimal (the JSON-representable ledgers of
  this embedding, where a number is a rational), \<open>loadData\<close> right after \<open>saveData\<close>
  gives the JSON image of the saved ledger back, whatever the slot held before and
  whatever the state object was: the load is deep-equal to the record saved.
\<close>

theorem save_load_round_trip:
  assumes "decimal_ledger (state ap)"
  shows "loadData (localStorage (saveData ap)) st = Inr (json_of_state (state ap))"
  by (rule loadData_saved [OF _ assms]) (simp add: saveData_def)

theorem save_load_round_trip_witness:
  "decimal_ledger (state app_cafe)
   \<and> loadData (localStorage (saveData app_cafe)) (json_of_state initial_state)
       = Inr (json_of_state ledger_cafe)"
proof -
  have r: "decimal_ledger (state app_cafe)" by code_simp
  have s: "state app_cafe = ledger_cafe" by (simp add: app_cafe_def)
  from save_load_round_trip [OF r, of "json_of_state initial_state"] r s show ?thesis
    by simp
qed


section \<open>Dashboard: health status, daily budget, savings progress\<close>



text \<open>The divisors of the two rates are never 0: \<open>daysInMonth\<close> is a day of a month,
  and \<open>dailyBudget\<close> replaces 0 by 1.\<close>

lemma daysInMonth_positive: "1 \<le> daysInMonth clk"
  by (simp add: daysInMonth_def getDate_def DateFromDay_range)

lemma less_than_Finite [simp]: "less_than (Finite x) (Finite y) = (x < y)"
  by (simp add: less_than_def rank_def)

lemma at_least_Finite [simp]: "at_least (Finite x) (Finite y) = (y \<le> x)"
  by (simp add: at_least_def rank_def)

text \<open>Without rounding, the health indicator on number values is the one of
  \<open>updateDashboard\<close> on exact numbers.\<close>

lemma totalSpent_fp_exact: "totalSpent_fp (finite_arith id) s = Finite (totalSpent s)"
proof -
  have "foldl (\<lambda>sum exp. fadd (finite_arith id) sum (Finite (amount exp))) (Finite a) xs =
        Finite (foldl (\<lambda>sum exp. sum + amount exp) a xs)" for a xs
    by (induction xs arbitrary: a) (simp_all add: finite_arith_def)
  then show ?thesis
    by (simp add: totalSpent_fp_def totalSpent_def)
qed

lemma balance_fp_exact: "balance_fp (finite_arith id) s = Finite (balance s)"
  unfolding balance_fp_def totalSpent_fp_exact
  by (simp add: balance_def finite_arith_def)

lemma updateHealthIndicator_fp_exact:
  assumes "totalDays \<noteq> 0"
  shows "updateHealthIndicator_fp (finite_arith id) s (Finite b) r totalDays =
         updateHealthIndicator s b r totalDays"
  using assms
  by (simp add: updateHealthIndicator_fp_def updateHealthIndicator_def finite_arith_def
      dailyBudget_def idealDaily_def Let_def)

lemma healthIndicator_fp_exact:
  "healthIndicator_fp (finite_arith id) clk s = healthIndicator_el (updateDashboard clk s)"
proof -
  have "daysInMonth clk \<noteq> 0"
    using daysInMonth_positive [of clk] by simp
  then show ?thesis
    by (simp add: healthIndicator_fp_def balance_fp_exact updateHealthIndicator_fp_exact
        updateDashboard_def)
qed

text \<open>
  With rounding, the status can differ from the one that exact arithmetic on the decimals
  typed would give. For an allowance of 0.3 and expenses of 0.1 and 0.2, the sum of the
  expenses rounds to a number above the allowance, the balance is \<open>- 2\<^sup>-\<^sup>5\<^sup>4\<close>, and the
  indicator reads "Critical"; on the decimals themselves the balance is 0 and the rules
  give "Tight".
\<close>

lemma nearest53_tenth: "nearest53 (1 / 10) = 3602879701896397 / 2 ^ 55"
  by code_simp

lemma balance_fp_tenths:
  "balance_fp (finite_arith nearest53) ledger_tenths = Finite (- (1 / 2 ^ 54))"
  by code_simp

lemma healthIndicator_fp_tenths:
  "healthIndicator_fp (finite_arith nearest53) clock_pk ledger_tenths =
     (''Health: Critical'', ''#ef4444'')"
  by code_simp

lemma healthIndicator_exact_decimals:
  "fst (healthIndicator_el (updateDashboard clock_pk
      \<lparr>allowance = 3 / 10, goal = 0,
       expenses = [(expense_on 1 ''2024-01-10'') \<lparr>amount := 1 / 10\<rparr>,
                   (expense_on 2 ''2024-01-11'') \<lparr>amount := 1 / 5\<rparr>]\<rparr>))
   = ''Health: Tight''"
  by code_simp

text \<open>
  Claim C2. For every arithmetic of the platform, every clock and every ledger, the text
  of the health indicator is the one that the five rules give, in their order and with
  the first match winning: allowance 0 gives "Set Allowance", else a negative balance
  gives "Critical", else a daily budget below half the ideal daily rate gives "Tight",
  else a daily budget of at least the ideal rate gives "Healthy", else "Careful". Here
  the balance is the allowance minus the sum of the expenses, the daily budget is the
  balance divided by the days left in the month (by 1 when none is left), and the ideal
  daily rate is the allowance divided by the number of days of the month, each computed
  by the platform. The text is always one of the five.
\<close>

theorem health_five_rules:
  "fst (healthIndicator_fp ar clk s) =
     (let spent = foldl (\<lambda>t e. fadd ar t (Finite (amount e))) (Finite 0) (expenses s);
          bal = fsub ar (Finite (allowance s)) spent;
          daily = fdiv ar bal
                    (Finite (of_int (if remainingDays clk = 0 then 1 else remainingDays clk)));
          ideal = fdiv ar (Finite (allowance s)) (Finite (of_int (daysInMonth clk)))
      in status_text (health_status ar (allowance s) bal daily ideal))
   \<and> fst (healthIndicator_fp ar clk s) \<in>
       {''Set Allowance'', ''Health: Critical'', ''Health: Tight'', ''Health: Healthy'',
        ''Health: Careful''}"
  by (simp add: healthIndicator_fp_def updateHealthIndicator_fp_def balance_fp_def
      totalSpent_fp_def health_status_def Let_def)











section \<open>The list of expenses: filters and order\<close>

lemma set_sort_insert: "set (sort_insert c x xs) = insert x (set xs)"
  by (induction xs) auto

lemma mset_sort_insert: "mset (sort_insert c x xs) = add_mset x (mset xs)"
  by (induction xs) auto

lemma mset_Array_sort: "mset (Array_sort c xs) = mset xs"
  by (induction xs) (simp_all add: Array_sort_def mset_sort_insert)

lemma sorted_sort_insert:
  assumes "list_all (\<lambda>e. k e \<noteq> None) (x # xs)"
    and "sorted_wrt (\<lambda>a b. js_ge (k a) (k b)) xs"
  shows "sorted_wrt (\<lambda>a b. js_ge (k a) (k b)) (sort_insert (\<lambda>a b. js_minus (k b) (k a)) x xs)"
  using assms
proof (induction xs)
  case Nil
  then show ?case by simp
next
  case (Cons y ys)
  from Cons.prems(1) obtain vx vy where v: "k x = Some vx" "k y = Some vy"
    by auto
  show ?case
  proof (cases "vy \<le> vx")
    case True
    have "js_ge (k x) (k z)" if "z \<in> set ys" for z
    proof -
      from Cons.prems(2) that have "js_ge (k y) (k z)" by simp
      then show ?thesis using v True by (auto simp add: js_ge_def split: option.splits)
    qed
    then show ?thesis
      using Cons.prems(2) v True by (simp add: SortCompare_def js_minus_def js_ge_def)
  next
    case False
    have "sorted_wrt (\<lambda>a b. js_ge (k a) (k b)) (sort_insert (\<lambda>a b. js_minus (k b) (k a)) x ys)"
      using Cons.IH Cons.prems by simp
    then show ?thesis
      using Cons.prems(2) v False
      by (auto simp add: SortCompare_def js_minus_def js_ge_def set_sort_insert)
  qed
qed

lemma sorted_Array_sort:
  assumes "list_all (\<lambda>e. k e \<noteq> None) xs"
  shows "sorted_wrt (\<lambda>a b. js_ge (k a) (k b)) (Array_sort (\<lambda>a b. js_minus (k b) (k a)) xs)"
  using assms
proof (induction xs)
  case Nil
  show ?case by (simp add: Array_sort_def)
next
  case (Cons x xs)
  have s: "sorted_wrt (\<lambda>a b. js_ge (k a) (k b)) (Array_sort (\<lambda>a b. js_minus (k b) (k a)) xs)"
    using Cons by simp
  have "list_all (\<lambda>e. k e \<noteq> None) (x # Array_sort (\<lambda>a b. js_minus (k b) (k a)) xs)"
    using Cons.prems mset_Array_sort [of "\<lambda>a b. js_minus (k b) (k a)" xs]
    by (metis list.pred_inject(2) list_all_iff set_mset_mset)
  from sorted_sort_insert [OF this s] show ?case by (simp add: Array_sort_def)
qed

lemma renderExpenses_selected:
  "renderExpenses clk s flt =
     Array_sort (\<lambda>a b. js_minus (new_Date_string (date b)) (new_Date_string (date a)))
       (filter (selected clk flt) (expenses s))"
proof -
  have "selected clk flt =
      (\<lambda>e. if flt = ''today'' then isSameDay clk (new_Date_string (date e)) (Some (now clk))
           else if flt = ''week''
             then js_ge (new_Date_string (date e))
                    (Some (setDate clk (now clk) (getDate clk (now clk) - 7)))
           else True)"
    by (intro ext) (simp add: selected_def)
  then show ?thesis by (simp add: renderExpenses_def Let_def)
qed

lemma Day_TimeWithinDay: "Day l * msPerDay + TimeWithinDay l = l"
  by (simp add: Day_def TimeWithinDay_def)

lemma MakeDay_of_civil: "MakeDay (YearFromDay D) (MonthFromDay D) dt = D - DateFromDay D + dt"
  using MakeDay_in_year [OF MonthFromDay_range [of D], where y = "YearFromDay D" and dt = dt]
  by (simp add: DateFromDay_def DayWithinYear_def)

text \<open>\<open>setDate\<close> to a day of the month counted from today's moves the time value by
  whole days and keeps the time of day.\<close>

lemma setDate_shift: "setDate clk t (getDate clk t + k) = t + k * msPerDay"
proof -
  let ?l = "LocalTime clk t"
  have "setDate clk t (getDate clk t + k)
      = UTC clk ((Day ?l + k) * msPerDay + TimeWithinDay ?l)"
    by (simp add: setDate_def Let_def getDate_def MakeDay_of_civil)
  also have "\<dots> = UTC clk (Day ?l * msPerDay + TimeWithinDay ?l + k * msPerDay)"
    by (simp add: algebra_simps)
  also have "\<dots> = t + k * msPerDay"
    by (simp only: Day_TimeWithinDay) (simp add: UTC_def LocalTime_def)
  finally show ?thesis .
qed

text \<open>The week filter keeps an expense exactly when midnight UTC of its date is not before
  the instant 7 times 24 hours before now.\<close>

lemma week_filter_instant:
  "selected clk ''week'' e = js_ge (new_Date_string (date e)) (Some (now clk - 7 * msPerDay))"
  using setDate_shift [of clk "now clk" "- 7"] by (simp add: selected_def)

lemma iso_date_valid:
  assumes "iso_date s = Some (y, m, d)"
  shows "1 \<le> m" "m \<le> 12" "1 \<le> d" "d \<le> days_in_month y (m - 1)"
  using assms by (auto simp add: iso_date_def Let_def split: if_splits)

lemma Day_shifted:
  assumes "0 \<le> z" "z < msPerDay"
  shows "Day (n * msPerDay + z) = n"
  using assms by (simp add: Day_def msPerDay_def div_pos_pos_trivial)

text \<open>
  At an offset from UTC of zero up to (not including) 24 hours, \<open>isSameDay\<close> with a
  valid date string holds exactly when the string names the local calendar day of the
  other date. At a negative offset (down to 24 hours) it holds exactly when the other
  date lies on the day before the one the string names.
\<close>

lemma isSameDay_east_of_UTC:
  assumes "0 \<le> LocalTZA clk" "LocalTZA clk < msPerDay" "iso_date s = Some (y, m, d)"
  shows "isSameDay clk (new_Date_string s) (Some t)
     = (getFullYear clk t = y \<and> getMonth clk t + 1 = m \<and> getDate clk t = d)"
proof -
  note v = iso_date_valid [OF assms(3)]
  have m: "0 \<le> m - 1" "m - 1 \<le> 11" using v by simp_all
  let ?n = "MakeDay y (m - 1) d"
  have D: "Day (LocalTime clk (?n * msPerDay)) = ?n"
    using assms(1,2) by (simp add: LocalTime_def Day_shifted)
  note c = civil_of_MakeDay [OF m v(3,4)]
  show ?thesis
    by (auto simp add: isSameDay_def new_Date_string_def assms(3) js_strict_eq_def
        getFullYear_def getMonth_def getDate_def D c)
qed

lemma Day_shifted_back:
  assumes "- msPerDay \<le> z" "z < 0"
  shows "Day (n * msPerDay + z) = n - 1"
proof -
  have e: "n * msPerDay + z = (n - 1) * msPerDay + (z + msPerDay)" by (simp add: algebra_simps)
  have "Day ((n - 1) * msPerDay + (z + msPerDay)) = n - 1"
    using assms by (intro Day_shifted) simp_all
  then show ?thesis by (simp only: e)
qed

lemma isSameDay_west_of_UTC:
  assumes "- msPerDay \<le> LocalTZA clk" "LocalTZA clk < 0" "iso_date s = Some (y, m, d)"
  shows "isSameDay clk (new_Date_string s) (Some t)
     = (Day (LocalTime clk t) = MakeDay y (m - 1) d - 1)"
proof -
  let ?n = "MakeDay y (m - 1) d"
  let ?D = "Day (LocalTime clk t)"
  have D: "Day (LocalTime clk (?n * msPerDay)) = ?n - 1"
    using assms(1,2) by (simp add: LocalTime_def Day_shifted_back)
  have inv: "MakeDay (YearFromDay k) (MonthFromDay k) (DateFromDay k) = k" for k
    by (simp add: MakeDay_of_civil)
  have "isSameDay clk (new_Date_string s) (Some t)
      = (YearFromDay (?n - 1) = YearFromDay ?D \<and> MonthFromDay (?n - 1) = MonthFromDay ?D
         \<and> DateFromDay (?n - 1) = DateFromDay ?D)"
    by (simp add: isSameDay_def new_Date_string_def assms(3) js_strict_eq_def
        getFullYear_def getMonth_def getDate_def D)
  also have "\<dots> = (?D = ?n - 1)"
    using inv [of ?D] inv [of "?n - 1"] by auto
  finally show ?thesis .
qed

text \<open>
  Claim C4 against the code. At noon of 15 January 2024 (UTC+5) the week filter drops the
  expense dated 8 January, exactly 7 days before today, and keeps those of 9 January and
  of 20 February: the bound is the instant 7 days before now, time of day included,
  while an expense's date is midnight UTC of its day.
\<close>

theorem week_filter_boundary_day:
  "renderExpenses clock_pk
      (ledger_of [expense_on 1 ''2024-01-07'', expense_on 2 ''2024-01-08'',
                  expense_on 3 ''2024-01-09'', expense_on 4 ''2024-02-20''])
      ''week''
   = [expense_on 4 ''2024-02-20'', expense_on 3 ''2024-01-09'']"
  by code_simp

text \<open>
  Claim C5 against the code. At noon of 15 January 2024 in a zone 5 hours behind UTC,
  the today filter drops the expense dated 15 January and shows the one dated 16
  January: the date string is read as midnight UTC, which is the evening before in
  local time, and \<open>isSameDay\<close> compares local calendar fields.
\<close>

theorem today_filter_west_of_UTC:
  "renderExpenses clock_west
      (ledger_of [expense_on 1 ''2024-01-14'', expense_on 2 ''2024-01-15'',
                  expense_on 3 ''2024-01-16''])
      ''today''
   = [expense_on 3 ''2024-01-16'']"
  by code_simp

text \<open>
  Claim C9. For every ledger whose expense dates are valid dates, every clock and every
  filter keyword, the rendered sequence is ordered by date, newest first, and is a
  rearrangement of the selected expenses. Nothing is said of the order among equal
  dates.
\<close>

theorem renderExpenses_newest_first:
  assumes "list_all (\<lambda>e. new_Date_string (date e) \<noteq> None) (expenses s)"
  shows "sorted_wrt newest_first (renderExpenses clk s flt)
     \<and> mset (renderExpenses clk s flt) = mset (filter (selected clk flt) (expenses s))"
proof -
  have n: "newest_first = (\<lambda>a b. js_ge (new_Date_string (date a)) (new_Date_string (date b)))"
    by (intro ext) (simp add: newest_first_def js_ge_def)
  have "list_all (\<lambda>e. new_Date_string (date e) \<noteq> None) (filter (selected clk flt) (expenses s))"
    using assms by (simp add: list_all_iff)
  from sorted_Array_sort [of "\<lambda>e. new_Date_string (date e)", OF this]
  show ?thesis by (simp add: renderExpenses_selected n mset_Array_sort)
qed

theorem renderExpenses_newest_first_witness:
  "list_all (\<lambda>e. new_Date_string (date e) \<noteq> None)
     (expenses (ledger_of [expense_on 1 ''2024-01-09'', expense_on 2 ''2024-02-20'',
                           expense_on 3 ''2023-12-31'', expense_on 4 ''2024-01-09'']))
   \<and> sorted_wrt newest_first
       (renderExpenses clock_pk
          (ledger_of [expense_on 1 ''2024-01-09'', expense_on 2 ''2024-02-20'',
                      expense_on 3 ''2023-12-31'', expense_on 4 ''2024-01-09'']) ''all'')
   \<and> renderExpenses clock_pk
        (ledger_of [expense_on 1 ''2024-01-09'', expense_on 2 ''2024-02-20'',
                    expense_on 3 ''2023-12-31'', expense_on 4 ''2024-01-09'']) ''all''
      = [expense_on 2 ''2024-02-20'', expense_on 1 ''2024-01-09'', expense_on 4 ''2024-01-09'',
         expense_on 3 ''2023-12-31'']"
proof -
  let ?l = "ledger_of [expense_on 1 ''2024-01-09'', expense_on 2 ''2024-02-20'',
                       expense_on 3 ''2023-12-31'', expense_on 4 ''2024-01-09'']"
  have v: "list_all (\<lambda>e. new_Date_string (date e) \<noteq> None) (expenses ?l)"
    by code_simp
  have r: "renderExpenses clock_pk ?l ''all''
      = [expense_on 2 ''2024-02-20'', expense_on 1 ''2024-01-09'', expense_on 4 ''2024-01-09'',
         expense_on 3 ''2023-12-31'']"
    by code_simp
  from renderExpenses_newest_first [OF v, of clock_pk "''all''"] v r show ?thesis
    by blast
qed


section \<open>Form handlers\<close>

lemma positive_iff: "positive a \<longleftrightarrow> (\<exists>x. a = Num x \<and> 0 < x)"
  by (cases a) (simp_all add: positive_def)

text \<open>
  Claim C3. A submitted amount that is not a positive number (\<^verbatim>\<open>NaN\<close>, 0 or negative)
  leaves the application as it was under each of the three forms, and so does an
  expense with an empty date: neither the ledger nor the stored text changes.
\<close>

theorem invalid_submit_ignored:
  "(\<not> positive a \<longrightarrow> allowanceForm_submit a ap = ap \<and> goalForm_submit a ap = ap)
   \<and> (\<not> positive a \<or> dt = [] \<longrightarrow> expenseForm_submit clk a cat dt nt ap = ap)"
  by (auto simp add: allowanceForm_submit_def goalForm_submit_def expenseForm_submit_def)

theorem invalid_submit_ignored_witness:
  "\<not> positive NaN \<and> \<not> positive (Num 0) \<and> \<not> positive (Num (- 5)) \<and> positive (Num 12)
   \<and> allowanceForm_submit NaN app_1000 = app_1000
   \<and> goalForm_submit (Num (- 5)) app_1000 = app_1000
   \<and> expenseForm_submit clock_pk (Num 0) ''food'' ''2024-01-15'' ''tea'' app_1000 = app_1000
   \<and> expenseForm_submit clock_pk (Num 12) ''food'' [] ''tea'' app_1000 = app_1000"
proof -
  have p: "\<not> positive NaN" "\<not> positive (Num 0)" "\<not> positive (Num (- 5))" "positive (Num 12)"
    by (simp_all add: positive_def)
  show ?thesis
    using p invalid_submit_ignored [of NaN app_1000 "''x''" clock_pk "''food''" "''tea''"]
      invalid_submit_ignored [of "Num (- 5)" app_1000 "''x''" clock_pk "''food''" "''tea''"]
      invalid_submit_ignored [of "Num 0" app_1000 "''2024-01-15''" clock_pk "''food''" "''tea''"]
      invalid_submit_ignored [of "Num 12" app_1000 "[]" clock_pk "''food''" "''tea''"]
    by simp
qed

text \<open>
  Claim C10. An accepted allowance changes the allowance only; an accepted goal changes
  the goal only; an accepted expense appends one entry, built from the form and the
  clock, and leaves the earlier entries, the allowance and the goal as they were; a
  confirmed deletion keeps, in order, the entries whose id differs from the one given
  and changes neither allowance nor goal; a deletion that is not confirmed changes
  nothing.
\<close>

theorem handlers_frame:
  "(positive a \<longrightarrow>
      allowance (state (allowanceForm_submit a ap)) = num_value a
      \<and> goal (state (allowanceForm_submit a ap)) = goal (state ap)
      \<and> expenses (state (allowanceForm_submit a ap)) = expenses (state ap)
      \<and> goal (state (goalForm_submit a ap)) = num_value a
      \<and> allowance (state (goalForm_submit a ap)) = allowance (state ap)
      \<and> expenses (state (goalForm_submit a ap)) = expenses (state ap))
   \<and> (positive a \<and> dt \<noteq> [] \<longrightarrow>
      expenses (state (expenseForm_submit clk a cat dt nt ap)) =
        expenses (state ap) @ [\<lparr>id_e = now clk, amount = num_value a, category = cat,
                                 date = dt, note_e = nt\<rparr>]
      \<and> allowance (state (expenseForm_submit clk a cat dt nt ap)) = allowance (state ap)
      \<and> goal (state (expenseForm_submit clk a cat dt nt ap)) = goal (state ap))
   \<and> expenses (state (deleteExpense True i ap)) = filter (\<lambda>e. id_e e \<noteq> i) (expenses (state ap))
   \<and> allowance (state (deleteExpense True i ap)) = allowance (state ap)
   \<and> goal (state (deleteExpense True i ap)) = goal (state ap)
   \<and> deleteExpense False i ap = ap"
  by (simp add: allowanceForm_submit_def goalForm_submit_def expenseForm_submit_def
      deleteExpense_def saveData_def Let_def)

theorem handlers_frame_witness:
  "positive (Num 12) \<and> ''2024-01-15'' \<noteq> []
   \<and> allowance (state (allowanceForm_submit (Num 12) app_1000)) = 12
   \<and> goal (state (allowanceForm_submit (Num 12) app_1000)) = 500
   \<and> goal (state (goalForm_submit (Num 12) app_1000)) = 12
   \<and> allowance (state (goalForm_submit (Num 12) app_1000)) = 1000
   \<and> expenses (state (expenseForm_submit clock_pk (Num 12) ''food'' ''2024-01-15'' ''tea'' app_1000))
       = expenses ledger_1000 @ [\<lparr>id_e = 1705302000000, amount = 12, category = ''food'',
                                   date = ''2024-01-15'', note_e = ''tea''\<rparr>]
   \<and> expenses (state (deleteExpense True 1706000000000 app_1000)) = []
   \<and> allowance (state (deleteExpense True 1706000000000 app_1000)) = 1000"
proof -
  have p: "positive (Num 12)" by (simp add: positive_def)
  show ?thesis
    using p handlers_frame [of "Num 12" app_1000 "''2024-01-15''" clock_pk "''food''" "''tea''"
        1706000000000]
    by (simp add: num_value_def app_1000_def ledger_1000_def clock_pk_def)
qed


end
